theory Spec2Isabelle
  imports Main "HOL-Library.Word" "HOL-Library.Multiset" "HOL-Library.List_Lexorder"
begin

unbundle bit_operations_syntax

section \<open>The CMS localization pipeline (class CMSLocalization)\<close>

text \<open>
  A shallow embedding of the pure part of \<^verbatim>\<open>CMSLocalization\<close>: the extractor, the
  sanitizer, the identifier generator and its inverse, the serializer \<^verbatim>\<open>strapiToFtl\<close>,
  the deserializer \<^verbatim>\<open>convertFtlToStrapiFormat\<close> and the merger, followed by a state
  model of the pull-request reconciler.  The host's own operations (string methods,
  regular expressions, property access) are written out as the ECMAScript standard
  defines them; what the host takes from tables (collation, case mapping, the Unicode
  character database, the clock) is a parameter.
\<close>

subsection \<open>Strings\<close>

text \<open>
  A JavaScript string is a sequence of UTF-16 code units.  \<open>ascii\<close> writes a literal.
\<close>

type_synonym jschar = "16 word"
type_synonym jsstring = "jschar list"

definition ascii :: "string \<Rightarrow> jsstring" where
  "ascii s = map (\<lambda>c. of_nat (of_char c)) s"

text \<open>White space and line terminators: what \<^verbatim>\<open>trim\<close> removes and \<^verbatim>\<open>\s\<close> matches.\<close>

definition isWhiteSpace :: "jschar \<Rightarrow> bool" where
  "isWhiteSpace c \<longleftrightarrow>
     c = 0x09 \<or> c = 0x0A \<or> c = 0x0B \<or> c = 0x0C \<or> c = 0x0D \<or> c = 0x20 \<or> c = 0xA0 \<or>
     c = 0x1680 \<or> (0x2000 \<le> c \<and> c \<le> 0x200A) \<or> c = 0x2028 \<or> c = 0x2029 \<or>
     c = 0x202F \<or> c = 0x205F \<or> c = 0x3000 \<or> c = 0xFEFF"

definition trim :: "jsstring \<Rightarrow> jsstring" where
  "trim s = rev (dropWhile isWhiteSpace (rev (dropWhile isWhiteSpace s)))"

definition startsWith :: "jsstring \<Rightarrow> jsstring \<Rightarrow> bool" where
  "startsWith s p \<longleftrightarrow> take (length p) s = p"

fun includes_str :: "jsstring \<Rightarrow> jsstring \<Rightarrow> bool" where
  "includes_str [] sub = (sub = [])"
| "includes_str (c # cs) sub = (startsWith (c # cs) sub \<or> includes_str cs sub)"

text \<open>\<^verbatim>\<open>s.split(sep)\<close> for a separator of one code unit; the empty string gives one
  empty part.\<close>

fun split_on :: "jschar \<Rightarrow> jsstring \<Rightarrow> jsstring list" where
  "split_on sep [] = [[]]"
| "split_on sep (c # cs) =
     (if c = sep then [] # split_on sep cs
      else (case split_on sep cs of
              [] \<Rightarrow> [[c]]
            | p # ps \<Rightarrow> (c # p) # ps))"

fun join :: "jsstring \<Rightarrow> jsstring list \<Rightarrow> jsstring" where
  "join sep [] = []"
| "join sep [p] = p"
| "join sep (p # q # ps) = p @ sep @ join sep (q # ps)"

text \<open>\<^verbatim>\<open>xs.slice(start, end)\<close>: a negative index counts from the end, and both are
  clamped to the array.\<close>

definition slice :: "int \<Rightarrow> int \<Rightarrow> 'a list \<Rightarrow> 'a list" where
  "slice start fin xs =
     (let n = int (length xs);
          k = (if start < 0 then max (n + start) 0 else min start n);
          e = (if fin < 0 then max (n + fin) 0 else min fin n)
      in take (nat (e - k)) (drop (nat k) xs))"

text \<open>\<^verbatim>\<open>s.replace(/ab/g, r)\<close> for a pattern of two literal code units: matches are found
  left to right and do not overlap.\<close>

fun replace_pair :: "jschar \<Rightarrow> jschar \<Rightarrow> jsstring \<Rightarrow> jsstring \<Rightarrow> jsstring" where
  "replace_pair a b r (x # y # rest) =
     (if x = a \<and> y = b then r @ replace_pair a b r rest else x # replace_pair a b r (y # rest))"
| "replace_pair a b r s = s"

subsection \<open>Values\<close>

text \<open>
  The values the CMS and the parsers hand over: what \<^verbatim>\<open>JSON.parse\<close> builds, and
  \<^verbatim>\<open>undefined\<close>.  Numbers are integers here (only their truthiness and their type are
  looked at).  An object is the list of its own properties in the order
  \<^verbatim>\<open>Object.entries\<close> lists them; the values are trees (no sharing between objects).
  An array is the list of its elements.  \<^verbatim>\<open>JSON.parse\<close> builds no other array; an
  assignment can leave a hole in an array or give it a named property, and such an array
  is its \<^verbatim>\<open>length\<close> and the list of its own enumerable properties (\<open>JArrObj\<close>).
\<close>

datatype jsval =
    JUndefined
  | JNull
  | JBool bool
  | JNum int
  | JStr jsstring
  | JArr "jsval list"
  | JArrObj nat "(jsstring \<times> jsval) list"
  | JObj "(jsstring \<times> jsval) list"

type_synonym 'v props = "(jsstring \<times> 'v) list"

fun truthy :: "jsval \<Rightarrow> bool" where
  "truthy JUndefined = False"
| "truthy JNull = False"
| "truthy (JBool b) = b"
| "truthy (JNum n) = (n \<noteq> 0)"
| "truthy (JStr s) = (s \<noteq> [])"
| "truthy (JArr xs) = True"
| "truthy (JArrObj n ps) = True"
| "truthy (JObj ps) = True"

text \<open>\<^verbatim>\<open>typeof v === 'object'\<close>\<close>

fun typeof_object :: "jsval \<Rightarrow> bool" where
  "typeof_object JNull = True"
| "typeof_object (JArr xs) = True"
| "typeof_object (JArrObj n ps) = True"
| "typeof_object (JObj ps) = True"
| "typeof_object v = False"

text \<open>\<^verbatim>\<open>Array.isArray(v)\<close>\<close>

fun isArray :: "jsval \<Rightarrow> bool" where
  "isArray (JArr xs) = True"
| "isArray (JArrObj n ps) = True"
| "isArray v = False"

datatype js_error =
    TypeError
  | RangeError
  | Unmodelled

text \<open>
  \<open>TypeError\<close> and \<open>RangeError\<close> are the exceptions the host throws.  \<open>Unmodelled\<close> marks
  the runs that leave this value model: a write that changes \<^verbatim>\<open>Object.prototype\<close> or a
  function of \<^verbatim>\<open>Object\<close> that the class calls, a \<^verbatim>\<open>length\<close> converted in floating point,
  an \<^verbatim>\<open>l10nId\<close> that is not a string.
\<close>

subsubsection \<open>Property order and assignment\<close>

text \<open>
  An ordinary object lists the keys that are array indices first, in ascending order,
  and then the other keys in the order of their creation.
\<close>

definition isDigit :: "jschar \<Rightarrow> bool" where
  "isDigit c \<longleftrightarrow> 0x30 \<le> c \<and> c \<le> 0x39"

definition digits_value :: "jsstring \<Rightarrow> int" where
  "digits_value k = foldl (\<lambda>n c. 10 * n + (uint c - 48)) 0 k"

definition array_index :: "jsstring \<Rightarrow> int option" where
  "array_index k =
     (if k \<noteq> [] \<and> list_all isDigit k \<and> (k = [0x30] \<or> hd k \<noteq> 0x30)
         \<and> digits_value k < 4294967295
      then Some (digits_value k) else None)"

fun insert_index :: "int \<Rightarrow> jsstring \<times> 'v \<Rightarrow> 'v props \<Rightarrow> 'v props" where
  "insert_index i kv [] = [kv]"
| "insert_index i kv ((k', v') # rest) =
     (case array_index k' of
        Some j \<Rightarrow> if j < i then (k', v') # insert_index i kv rest else kv # (k', v') # rest
      | None \<Rightarrow> kv # (k', v') # rest)"

text \<open>Defining or overwriting an own property.\<close>

definition obj_set :: "'v props \<Rightarrow> jsstring \<Rightarrow> 'v \<Rightarrow> 'v props" where
  "obj_set ps k v =
     (if map_of ps k \<noteq> None then map (\<lambda>(k', v'). if k' = k then (k', v) else (k', v')) ps
      else (case array_index k of
              None \<Rightarrow> ps @ [(k, v)]
            | Some i \<Rightarrow> insert_index i (k, v) ps))"

text \<open>
  \<^verbatim>\<open>obj[k] = v\<close> for a string \<open>v\<close>: the key \<^verbatim>\<open>__proto__\<close>, unless it is an own property,
  reaches the accessor of the prototype, which ignores a value that is not an object.
\<close>

definition assign_string :: "'v props \<Rightarrow> jsstring \<Rightarrow> 'v \<Rightarrow> 'v props" where
  "assign_string ps k v =
     (if k = ascii ''__proto__'' \<and> map_of ps k = None then ps else obj_set ps k v)"

text \<open>Reading \<^verbatim>\<open>obj[k]\<close> finds an own property or one of \<^verbatim>\<open>Object.prototype\<close>.\<close>

definition object_prototype_keys :: "jsstring list" where
  "object_prototype_keys =
     map ascii [''constructor'', ''__defineGetter__'', ''__defineSetter__'',
       ''hasOwnProperty'', ''__lookupGetter__'', ''__lookupSetter__'', ''isPrototypeOf'',
       ''propertyIsEnumerable'', ''toString'', ''valueOf'', ''__proto__'',
       ''toLocaleString'']"

datatype member =
    Own jsval
  | Inherited
  | Missing

definition get_member :: "jsval props \<Rightarrow> jsstring \<Rightarrow> member" where
  "get_member ps k =
     (case map_of ps k of
        Some v \<Rightarrow> Own v
      | None \<Rightarrow> if k \<in> set object_prototype_keys then Inherited else Missing)"

fun member_truthy :: "member \<Rightarrow> bool" where
  "member_truthy (Own v) = truthy v"
| "member_truthy Inherited = True"
| "member_truthy Missing = False"

text \<open>\<^verbatim>\<open>if (!holder[c]) holder[c] = {}\<close>\<close>

definition ensure_component :: "jsval props \<Rightarrow> jsstring \<Rightarrow> jsval props" where
  "ensure_component holder c =
     (if member_truthy (get_member holder c) then holder else obj_set holder c (JObj []))"

text \<open>The decimal numeral of an array index.\<close>

function decimal :: "nat \<Rightarrow> jsstring" where
  "decimal n =
     (if n < 10 then [ascii ''0123456789'' ! n]
      else decimal (n div 10) @ [ascii ''0123456789'' ! (n mod 10)])"
  by pat_completeness auto
termination
  by (relation "measure (\<lambda>n. n)") auto

subsubsection \<open>Arrays under assignment\<close>

text \<open>The own enumerable properties of an array of the given elements.\<close>

definition array_props :: "jsval list \<Rightarrow> jsval props" where
  "array_props xs = zip (map decimal [0..<length xs]) xs"

text \<open>
  The array of the given \<^verbatim>\<open>length\<close> and own enumerable properties: the list of its
  elements when it has no hole and no named property.
\<close>

definition array_value :: "nat \<Rightarrow> jsval props \<Rightarrow> jsval" where
  "array_value n ps =
     (if map fst ps = map decimal [0..<n] then JArr (map snd ps) else JArrObj n ps)"

text \<open>
  What a string assigned to \<^verbatim>\<open>length\<close> converts to.  The string is converted to a
  number, white space at its ends set aside: the empty string is 0, a string of digits
  its value, a string without a digit is \<^verbatim>\<open>NaN\<close> or an infinity.  A new length is an
  integer below \<open>2\<^sup>3\<^sup>2\<close>.  The other numeric literals (a sign, a fraction, an exponent, a
  radix prefix) are converted in floating point and are not modelled.
\<close>

datatype array_length =
    NewLength nat
  | BadLength
  | OtherLiteral

definition to_array_length :: "jsstring \<Rightarrow> array_length" where
  "to_array_length s =
     (let t = trim s in
      if t = [] then NewLength 0
      else if list_all isDigit t then
        (if digits_value t < 4294967296 then NewLength (nat (digits_value t)) else BadLength)
      else if list_ex isDigit t then OtherLiteral
      else BadLength)"

text \<open>
  \<^verbatim>\<open>arr[f] = v\<close> for a string \<open>v\<close> and an array of the given \<^verbatim>\<open>length\<close> and own properties.
  An array index at or beyond the length extends the array; \<^verbatim>\<open>length\<close> takes a valid
  length, removes the elements at and beyond it, and throws a \<^verbatim>\<open>RangeError\<close> for another
  value; every other key is a named property.
\<close>

definition array_assign :: "nat \<Rightarrow> jsval props \<Rightarrow> jsstring \<Rightarrow> jsstring \<Rightarrow> js_error + jsval" where
  "array_assign n ps f v =
     (if f = ascii ''length'' then
        (case to_array_length v of
           NewLength m \<Rightarrow>
             Inr (array_value m
                    (filter (\<lambda>(k, u). case array_index k of Some i \<Rightarrow> i < int m | None \<Rightarrow> True) ps))
         | BadLength \<Rightarrow> Inl RangeError
         | OtherLiteral \<Rightarrow> Inl Unmodelled)
      else (case array_index f of
              Some i \<Rightarrow> Inr (array_value (max n (nat i + 1)) (obj_set ps f (JStr v)))
            | None \<Rightarrow> Inr (array_value n (assign_string ps f (JStr v)))))"

subsubsection \<open>Assignment to a field of a component\<close>

text \<open>
  \<^verbatim>\<open>holder[c][f] = v\<close> where \<open>holder[c]\<close> is a member of \<^verbatim>\<open>Object.prototype\<close>, in strict
  mode.  The built-in functions refuse a write to \<^verbatim>\<open>name\<close>, \<^verbatim>\<open>length\<close>, \<^verbatim>\<open>caller\<close> and
  \<^verbatim>\<open>arguments\<close>, and \<^verbatim>\<open>Object\<close> one to \<^verbatim>\<open>prototype\<close>; \<^verbatim>\<open>__proto__\<close> ignores a string.  Any other
  property lands on the built-in function, where the class does not look: the holder is
  as it was.  The exceptions are the functions of \<^verbatim>\<open>Object\<close> that the class calls, and
  \<^verbatim>\<open>Object.prototype\<close> itself, reached as \<^verbatim>\<open>holder.__proto__\<close>.
\<close>

definition builtin_write :: "jsstring \<Rightarrow> jsstring \<Rightarrow> js_error option" where
  "builtin_write c f =
     (if f = ascii ''__proto__'' then None
      else if c = ascii ''__proto__'' then Some Unmodelled
      else if f \<in> set (map ascii [''name'', ''length'', ''caller'', ''arguments''])
        then Some TypeError
      else if c = ascii ''constructor'' \<and> f = ascii ''prototype'' then Some TypeError
      else if c = ascii ''constructor'' \<and> f \<in> set (map ascii [''entries'', ''keys'', ''assign''])
        then Some Unmodelled
      else None)"

text \<open>
  \<^verbatim>\<open>holder[c][f] = v\<close> for a string \<open>v\<close>, in strict mode (a class body): the object or the
  array that \<open>holder[c]\<close> refers to is updated in place; \<^verbatim>\<open>undefined\<close> and \<^verbatim>\<open>null\<close> there
  throw; so does another primitive, except for \<^verbatim>\<open>__proto__\<close>, which ignores a string.
\<close>

fun write_field :: "jsval props \<Rightarrow> jsstring \<Rightarrow> jsstring \<Rightarrow> jsstring \<Rightarrow> js_error + jsval props" where
  "write_field holder c f v =
     (case get_member holder c of
        Own (JObj fs) \<Rightarrow> Inr (obj_set holder c (JObj (assign_string fs f (JStr v))))
      | Own (JArr xs) \<Rightarrow>
          (case array_assign (length xs) (array_props xs) f v of
             Inl e \<Rightarrow> Inl e
           | Inr arr \<Rightarrow> Inr (obj_set holder c arr))
      | Own (JArrObj n ps) \<Rightarrow>
          (case array_assign n ps f v of
             Inl e \<Rightarrow> Inl e
           | Inr arr \<Rightarrow> Inr (obj_set holder c arr))
      | Own JUndefined \<Rightarrow> Inl TypeError
      | Own JNull \<Rightarrow> Inl TypeError
      | Own _ \<Rightarrow> if f = ascii ''__proto__'' then Inr holder else Inl TypeError
      | Inherited \<Rightarrow>
          (case builtin_write c f of
             None \<Rightarrow> Inr holder
           | Some e \<Rightarrow> Inl e)
      | Missing \<Rightarrow> Inl TypeError)"

text \<open>\<^verbatim>\<open>v.key\<close> for one of the metadata keys, which no prototype defines.\<close>

fun read_prop :: "jsval \<Rightarrow> jsstring \<Rightarrow> js_error + jsval" where
  "read_prop JUndefined k = Inl TypeError"
| "read_prop JNull k = Inl TypeError"
| "read_prop (JObj ps) k = Inr (case map_of ps k of Some v \<Rightarrow> v | None \<Rightarrow> JUndefined)"
| "read_prop (JArrObj n ps) k = Inr (case map_of ps k of Some v \<Rightarrow> v | None \<Rightarrow> JUndefined)"
| "read_prop v k = Inr JUndefined"

subsection \<open>The host\<close>

text \<open>
  What the code takes from the host's tables and clock: the time stamp of
  \<^verbatim>\<open>new Date().toISOString()\<close>, the collation behind \<^verbatim>\<open>localeCompare\<close>, the case mapping
  behind \<^verbatim>\<open>toUpperCase\<close>, and the two properties of the Unicode character database that
  normalization reads (the full canonical decomposition of a code point and its
  canonical combining class).  Every theorem below holds for every host.
\<close>

record js_host =
  timestamp :: jsstring
  localeCompare :: "jsstring \<Rightarrow> jsstring \<Rightarrow> int"
  toUpperCase :: "jsstring \<Rightarrow> jsstring"
  decomposition :: "int \<Rightarrow> int list"
  combining_class :: "int \<Rightarrow> int"

subsection \<open>Code points\<close>

definition isHighSurrogate :: "jschar \<Rightarrow> bool" where
  "isHighSurrogate c \<longleftrightarrow> 0xD800 \<le> c \<and> c \<le> 0xDBFF"

definition isLowSurrogate :: "jschar \<Rightarrow> bool" where
  "isLowSurrogate c \<longleftrightarrow> 0xDC00 \<le> c \<and> c \<le> 0xDFFF"

text \<open>The code points of a string: a surrogate pair is one code point, a surrogate
  alone stands for itself.\<close>

fun code_points :: "jsstring \<Rightarrow> int list" where
  "code_points (c # d # rest) =
     (if isHighSurrogate c \<and> isLowSurrogate d
      then (0x10000 + (uint c - 0xD800) * 0x400 + (uint d - 0xDC00)) # code_points rest
      else uint c # code_points (d # rest))"
| "code_points [c] = [uint c]"
| "code_points [] = []"

definition code_units :: "int \<Rightarrow> jsstring" where
  "code_units cp =
     (if cp < 0x10000 then [word_of_int cp]
      else [word_of_int (0xD800 + (cp - 0x10000) div 0x400),
            word_of_int (0xDC00 + (cp - 0x10000) mod 0x400)])"

subsection \<open>The sanitizer\<close>

text \<open>
  \<^verbatim>\<open>normalize('NFD')\<close>: every code point is replaced by its canonical decomposition, and
  then every combining mark moves back over the marks before it that have a greater
  combining class (the canonical ordering of the Unicode standard).  \<open>placed\<close> holds
  the output so far, last code point first.
\<close>

fun place_mark :: "(int \<Rightarrow> int) \<Rightarrow> int \<Rightarrow> int list \<Rightarrow> int list" where
  "place_mark ccc x [] = [x]"
| "place_mark ccc x (y # placed) =
     (if ccc x \<noteq> 0 \<and> ccc x < ccc y then y # place_mark ccc x placed else x # y # placed)"

definition canonical_order :: "(int \<Rightarrow> int) \<Rightarrow> int list \<Rightarrow> int list" where
  "canonical_order ccc cps = rev (foldl (\<lambda>placed x. place_mark ccc x placed) [] cps)"

definition normalize_NFD :: "js_host \<Rightarrow> jsstring \<Rightarrow> jsstring" where
  "normalize_NFD host s =
     concat (map code_units
       (canonical_order (combining_class host)
          (concat (map (decomposition host) (code_points s)))))"

text \<open>The four character classes that the sanitizer removes.\<close>

definition isCombiningMark :: "jschar \<Rightarrow> bool" where
  "isCombiningMark c \<longleftrightarrow> 0x0300 \<le> c \<and> c \<le> 0x036F"

definition isControl :: "jschar \<Rightarrow> bool" where
  "isControl c \<longleftrightarrow>
     c \<le> 0x08 \<or> c = 0x0B \<or> c = 0x0C \<or> (0x0E \<le> c \<and> c \<le> 0x1F) \<or> (0x7F \<le> c \<and> c \<le> 0x9F)"

definition isZeroWidth :: "jschar \<Rightarrow> bool" where
  "isZeroWidth c \<longleftrightarrow> (0x200B \<le> c \<and> c \<le> 0x200D) \<or> c = 0xFEFF"

definition isDirectionalIsolate :: "jschar \<Rightarrow> bool" where
  "isDirectionalIsolate c \<longleftrightarrow> c = 0x2066 \<or> c = 0x2067 \<or> c = 0x2068 \<or> c = 0x2069"

definition remove_class :: "(jschar \<Rightarrow> bool) \<Rightarrow> jsstring \<Rightarrow> jsstring" where
  "remove_class cls s = filter (\<lambda>c. \<not> cls c) s"

definition sanitizeContent :: "js_host \<Rightarrow> jsstring \<Rightarrow> jsstring" where
  "sanitizeContent host content =
     (if content = [] then []
      else trim
             (remove_class isDirectionalIsolate
               (remove_class isZeroWidth
                 (remove_class isControl
                   (remove_class isCombiningMark
                     (normalize_NFD host content))))))"

subsection \<open>MD5\<close>

text \<open>
  \<^verbatim>\<open>crypto.createHash('md5').update(value).digest('hex')\<close>: the string is encoded in
  UTF-8 (a surrogate alone becomes U+FFFD) and hashed as RFC 1321 defines it.
\<close>

definition utf8_encode :: "int \<Rightarrow> 8 word list" where
  "utf8_encode cp =
     (if cp < 0x80 then [word_of_int cp]
      else if cp < 0x800 then [word_of_int (0xC0 + cp div 0x40), word_of_int (0x80 + cp mod 0x40)]
      else if cp < 0x10000 then
        [word_of_int (0xE0 + cp div 0x1000), word_of_int (0x80 + (cp div 0x40) mod 0x40),
         word_of_int (0x80 + cp mod 0x40)]
      else
        [word_of_int (0xF0 + cp div 0x40000), word_of_int (0x80 + (cp div 0x1000) mod 0x40),
         word_of_int (0x80 + (cp div 0x40) mod 0x40), word_of_int (0x80 + cp mod 0x40)])"

definition utf8 :: "jsstring \<Rightarrow> 8 word list" where
  "utf8 s =
     concat (map (\<lambda>cp. utf8_encode (if 0xD800 \<le> cp \<and> cp \<le> 0xDFFF then 0xFFFD else cp))
       (code_points s))"

type_synonym u32 = "32 word"

definition md5_K :: "u32 list" where
  "md5_K =
    [0xd76aa478, 0xe8c7b756, 0x242070db, 0xc1bdceee, 0xf57c0faf, 0x4787c62a, 0xa8304613, 0xfd469501,
     0x698098d8, 0x8b44f7af, 0xffff5bb1, 0x895cd7be, 0x6b901122, 0xfd987193, 0xa679438e, 0x49b40821,
     0xf61e2562, 0xc040b340, 0x265e5a51, 0xe9b6c7aa, 0xd62f105d, 0x02441453, 0xd8a1e681, 0xe7d3fbc8,
     0x21e1cde6, 0xc33707d6, 0xf4d50d87, 0x455a14ed, 0xa9e3e905, 0xfcefa3f8, 0x676f02d9, 0x8d2a4c8a,
     0xfffa3942, 0x8771f681, 0x6d9d6122, 0xfde5380c, 0xa4beea44, 0x4bdecfa9, 0xf6bb4b60, 0xbebfbc70,
     0x289b7ec6, 0xeaa127fa, 0xd4ef3085, 0x04881d05, 0xd9d4d039, 0xe6db99e5, 0x1fa27cf8, 0xc4ac5665,
     0xf4292244, 0x432aff97, 0xab9423a7, 0xfc93a039, 0x655b59c3, 0x8f0ccc92, 0xffeff47d, 0x85845dd1,
     0x6fa87e4f, 0xfe2ce6e0, 0xa3014314, 0x4e0811a1, 0xf7537e82, 0xbd3af235, 0x2ad7d2bb, 0xeb86d391]"

definition md5_S :: "nat list" where
  "md5_S =
    [7, 12, 17, 22, 7, 12, 17, 22, 7, 12, 17, 22, 7, 12, 17, 22,
     5, 9, 14, 20, 5, 9, 14, 20, 5, 9, 14, 20, 5, 9, 14, 20,
     4, 11, 16, 23, 4, 11, 16, 23, 4, 11, 16, 23, 4, 11, 16, 23,
     6, 10, 15, 21, 6, 10, 15, 21, 6, 10, 15, 21, 6, 10, 15, 21]"

definition rotl32 :: "u32 \<Rightarrow> nat \<Rightarrow> u32" where
  "rotl32 x n = (push_bit n x) OR (drop_bit (32 - n) x)"

text \<open>Operation \<open>i\<close> of the 64 on a block; \<open>m\<close> holds the sixteen words of the block.\<close>

definition md5_op :: "u32 list \<Rightarrow> u32 \<times> u32 \<times> u32 \<times> u32 \<Rightarrow> nat \<Rightarrow> u32 \<times> u32 \<times> u32 \<times> u32" where
  "md5_op m st i =
     (case st of (a, b, c, d) \<Rightarrow>
        let f = (if i < 16 then (b AND c) OR (NOT b AND d)
                 else if i < 32 then (d AND b) OR (NOT d AND c)
                 else if i < 48 then b XOR c XOR d
                 else c XOR (b OR NOT d));
            g = (if i < 16 then i
                 else if i < 32 then (5 * i + 1) mod 16
                 else if i < 48 then (3 * i + 5) mod 16
                 else (7 * i) mod 16);
            f' = f + a + md5_K ! i + m ! g
        in (d, b + rotl32 f' (md5_S ! i), b, c))"

definition le_word32 :: "8 word list \<Rightarrow> u32" where
  "le_word32 bs = foldr (\<lambda>b w. push_bit 8 w OR ucast b) bs 0"

fun chunks :: "nat \<Rightarrow> 'a list \<Rightarrow> 'a list list" where
  "chunks n [] = []"
| "chunks n (x # xs) = (if n = 0 then [] else take n (x # xs) # chunks n (drop n (x # xs)))"

definition md5_block :: "u32 \<times> u32 \<times> u32 \<times> u32 \<Rightarrow> 8 word list \<Rightarrow> u32 \<times> u32 \<times> u32 \<times> u32" where
  "md5_block st blk =
     (let m = map le_word32 (chunks 4 blk) in
      case st of (a0, b0, c0, d0) \<Rightarrow>
      case foldl (md5_op m) st [0..<64] of (a, b, c, d) \<Rightarrow>
        (a0 + a, b0 + b, c0 + c, d0 + d))"

definition le_bytes32 :: "u32 \<Rightarrow> 8 word list" where
  "le_bytes32 w = map (\<lambda>i. ucast (drop_bit (8 * i) w)) [0..<4]"

definition le_bytes64 :: "64 word \<Rightarrow> 8 word list" where
  "le_bytes64 w = map (\<lambda>i. ucast (drop_bit (8 * i) w)) [0..<8]"

definition md5_pad :: "8 word list \<Rightarrow> 8 word list" where
  "md5_pad msg =
     (let n = length msg in
      msg @ [0x80] @ replicate ((119 - n mod 64) mod 64) 0 @ le_bytes64 (8 * of_nat n))"

definition md5_bytes :: "8 word list \<Rightarrow> 8 word list" where
  "md5_bytes msg =
     (case foldl md5_block (0x67452301, 0xefcdab89, 0x98badcfe, 0x10325476)
             (chunks 64 (md5_pad msg)) of
        (a, b, c, d) \<Rightarrow> concat (map le_bytes32 [a, b, c, d]))"

definition hex_digit :: "nat \<Rightarrow> jschar" where
  "hex_digit n = ascii ''0123456789abcdef'' ! n"

definition hex_byte :: "8 word \<Rightarrow> jsstring" where
  "hex_byte b = [hex_digit (unat b div 16), hex_digit (unat b mod 16)]"

definition md5_hex :: "jsstring \<Rightarrow> jsstring" where
  "md5_hex s = concat (map hex_byte (md5_bytes (utf8 s)))"

subsection \<open>The identifier generator\<close>

definition generateFtlIdWithL10nId :: "jsstring \<Rightarrow> jsstring \<Rightarrow> jsstring \<Rightarrow> jsstring" where
  "generateFtlIdWithL10nId l10nId fieldPath v =
     (let hash = take 8 (md5_hex v);
          fieldPathWithDashes = map (\<lambda>c. if c = 0x2E then 0x2D else c) fieldPath
      in l10nId @ ascii ''-'' @ fieldPathWithDashes @ ascii ''-'' @ hash)"

subsection \<open>Identifiers back to field paths\<close>

definition parseFtlIdToFieldPath :: "jsstring \<Rightarrow> jsstring option" where
  "parseFtlIdToFieldPath ftlId =
     (let parts = split_on 0x2D ftlId in
      if length parts \<ge> 4 then
        (let fieldParts = slice 1 (- 1) parts in Some (join (ascii ''.'') fieldParts))
      else None)"

subsection \<open>The deserializer\<close>

text \<open>
  The data line pattern \<^verbatim>\<open>/^([a-zA-Z0-9_-]+)\s*=\s*"([^"]*)"$/\<close>, applied to a whole
  string.  No class of the pattern overlaps the token that follows it, so the greedy
  match is the only one: the longest run of identifier characters, white space, the
  equals sign, white space, a quote, and a rest that ends with the only other quote.
\<close>

definition isIdChar :: "jschar \<Rightarrow> bool" where
  "isIdChar c \<longleftrightarrow>
     (0x61 \<le> c \<and> c \<le> 0x7A) \<or> (0x41 \<le> c \<and> c \<le> 0x5A) \<or> (0x30 \<le> c \<and> c \<le> 0x39)
     \<or> c = 0x5F \<or> c = 0x2D"

definition ftl_line_match :: "jsstring \<Rightarrow> (jsstring \<times> jsstring) option" where
  "ftl_line_match line =
     (let ftlId = takeWhile isIdChar line in
      if ftlId = [] then None
      else (case dropWhile isWhiteSpace (dropWhile isIdChar line) of
              [] \<Rightarrow> None
            | c # r2 \<Rightarrow>
                if c \<noteq> 0x3D then None
                else (case dropWhile isWhiteSpace r2 of
                        [] \<Rightarrow> None
                      | q # r3 \<Rightarrow>
                          if q = 0x22 \<and> r3 \<noteq> [] \<and> last r3 = 0x22 \<and> 0x22 \<notin> set (butlast r3)
                          then Some (ftlId, butlast r3)
                          else None)))"

text \<open>The three replacements of the unescaping step, in the order of the source.\<close>

definition unescape :: "jsstring \<Rightarrow> jsstring" where
  "unescape v =
     replace_pair 0x5C 0x72 [0x0D]
       (replace_pair 0x5C 0x6E [0x0A]
          (replace_pair 0x5C 0x22 [0x22] v))"

text \<open>The body of the loop over the lines; logging is left out.\<close>

definition convert_line :: "jsstring \<Rightarrow> jsstring \<Rightarrow> jsval props \<Rightarrow> js_error + jsval props" where
  "convert_line l10nId line strapiFormat =
     (let trimmedLine = trim line in
      if trimmedLine = [] \<or> startsWith trimmedLine (ascii ''#'') then Inr strapiFormat
      else (case ftl_line_match trimmedLine of
              None \<Rightarrow> Inr strapiFormat
            | Some (ftlId, v) \<Rightarrow>
                (let ftlIdParts = split_on 0x2D ftlId in
                 if length ftlIdParts \<ge> 3 then
                   (if hd ftlIdParts = l10nId then
                      (case parseFtlIdToFieldPath ftlId of
                         None \<Rightarrow> Inr strapiFormat
                       | Some fieldPath \<Rightarrow>
                           if fieldPath = [] then Inr strapiFormat
                           else (let parts = split_on 0x2E fieldPath in
                                 if length parts \<ge> 2 then
                                   (let componentName = parts ! 0;
                                        fieldName = parts ! 1
                                    in write_field (ensure_component strapiFormat componentName)
                                         componentName fieldName (unescape v))
                                 else Inr strapiFormat))
                    else Inr strapiFormat)
                 else Inr strapiFormat)))"

fun convert_lines :: "jsstring \<Rightarrow> jsstring list \<Rightarrow> jsval props \<Rightarrow> js_error + jsval props" where
  "convert_lines l10nId [] strapiFormat = Inr strapiFormat"
| "convert_lines l10nId (line # lines) strapiFormat =
     (case convert_line l10nId line strapiFormat of
        Inl e \<Rightarrow> Inl e
      | Inr strapiFormat' \<Rightarrow> convert_lines l10nId lines strapiFormat')"

definition convertFtlToStrapiFormat :: "jsstring \<Rightarrow> jsstring \<Rightarrow> jsval \<Rightarrow> js_error + jsval" where
  "convertFtlToStrapiFormat l10nId ftlContent baseData =
     (case read_prop baseData (ascii ''clientId'') of Inl e \<Rightarrow> Inl e | Inr clientId \<Rightarrow>
      case read_prop baseData (ascii ''entrypoint'') of Inl e \<Rightarrow> Inl e | Inr entrypoint \<Rightarrow>
      case read_prop baseData (ascii ''name'') of Inl e \<Rightarrow> Inl e | Inr name \<Rightarrow>
      case read_prop baseData (ascii ''l10nId'') of Inl e \<Rightarrow> Inl e | Inr baseL10nId \<Rightarrow>
      (let strapiFormat =
             [(ascii ''clientId'', clientId), (ascii ''entrypoint'', entrypoint),
              (ascii ''name'', name), (ascii ''l10nId'', baseL10nId)];
           lines = split_on 0x0A ftlContent
       in case convert_lines l10nId lines strapiFormat of
            Inl e \<Rightarrow> Inl e
          | Inr result \<Rightarrow> Inr (JObj result)))"

text \<open>A string that has none of the characters the sanitizer removes and no white
  space at either end.\<close>

definition sanitized :: "jsstring \<Rightarrow> bool" where
  "sanitized s \<longleftrightarrow>
     list_all (\<lambda>c. \<not> isCombiningMark c) s \<and> list_all (\<lambda>c. \<not> isControl c) s
     \<and> list_all (\<lambda>c. \<not> isZeroWidth c) s \<and> list_all (\<lambda>c. \<not> isDirectionalIsolate c) s
     \<and> trim s = s"

definition isHexDigit :: "jschar \<Rightarrow> bool" where
  "isHexDigit c \<longleftrightarrow> (0x30 \<le> c \<and> c \<le> 0x39) \<or> (0x61 \<le> c \<and> c \<le> 0x66)"

subsection \<open>A host for the examples\<close>

text \<open>
  The examples run on a host that agrees with Node.js on ASCII letters and on the code
  points U+00E9, U+0301, U+0591, U+05B0 and U+200B for case mapping, decomposition and
  combining classes, and that collates by code units.
\<close>

fun code_unit_compare :: "jsstring \<Rightarrow> jsstring \<Rightarrow> int" where
  "code_unit_compare [] [] = 0"
| "code_unit_compare [] (y # ys) = - 1"
| "code_unit_compare (x # xs) [] = 1"
| "code_unit_compare (x # xs) (y # ys) =
     (if x < y then - 1 else if y < x then 1 else code_unit_compare xs ys)"

definition sample_host :: js_host where
  "sample_host =
     \<lparr> timestamp = ascii ''2024-01-01T00:00:00.000Z'',
       localeCompare = code_unit_compare,
       toUpperCase = map (\<lambda>c. if 0x61 \<le> c \<and> c \<le> 0x7A then c - 0x20 else c),
       decomposition = (\<lambda>cp. if cp = 0xE9 then [0x65, 0x301] else [cp]),
       combining_class =
         (\<lambda>cp. if cp = 0x301 then 230 else if cp = 0x591 then 220
               else if cp = 0x5B0 then 10 else 0) \<rparr>"

subsection \<open>The extractor\<close>

definition metadata_keys :: "jsstring list" where
  "metadata_keys =
     map ascii [''id'', ''documentId'', ''clientId'', ''createdAt'', ''updatedAt'',
       ''publishedAt'', ''entrypoint'', ''name'', ''l10nId'']"

fun isStringValue :: "jsval \<Rightarrow> bool" where
  "isStringValue (JStr s) = (trim s \<noteq> [])"
| "isStringValue v = False"

fun isUrl :: "jsval \<Rightarrow> bool" where
  "isUrl (JStr s) =
     (startsWith s (ascii ''http://'') \<or> startsWith s (ascii ''https://'')
      \<or> startsWith s (ascii ''//''))"
| "isUrl v = False"

text \<open>A pattern of one class per code unit, anchored at the start of the string.\<close>

fun matches_prefix :: "(jschar \<Rightarrow> bool) list \<Rightarrow> jsstring \<Rightarrow> bool" where
  "matches_prefix [] s = True"
| "matches_prefix (p # ps) [] = False"
| "matches_prefix (p # ps) (c # cs) = (p c \<and> matches_prefix ps cs)"

text \<open>\<^verbatim>\<open>/^\d{4}-\d{2}-\d{2}T\d{2}:\d{2}:\d{2}/\<close>\<close>

definition date_pattern :: "(jschar \<Rightarrow> bool) list" where
  "date_pattern =
     [isDigit, isDigit, isDigit, isDigit, (\<lambda>c. c = 0x2D), isDigit, isDigit, (\<lambda>c. c = 0x2D),
      isDigit, isDigit, (\<lambda>c. c = 0x54), isDigit, isDigit, (\<lambda>c. c = 0x3A), isDigit, isDigit,
      (\<lambda>c. c = 0x3A), isDigit, isDigit]"

fun isDate :: "jsval \<Rightarrow> bool" where
  "isDate (JStr s) = matches_prefix date_pattern s"
| "isDate v = False"

fun isColor :: "jsval \<Rightarrow> bool" where
  "isColor (JStr s) =
     (startsWith s (ascii ''#'') \<or> startsWith s (ascii ''rgb('')
      \<or> startsWith s (ascii ''rgba('') \<or> includes_str s (ascii ''linear-gradient''))"
| "isColor v = False"

definition shouldIncludeField :: "jsstring \<Rightarrow> jsval \<Rightarrow> bool" where
  "shouldIncludeField key v =
     (if key \<in> set metadata_keys then False
      else if \<not> isStringValue v then False
      else \<not> (isUrl v \<or> isDate v \<or> isColor v))"

text \<open>\<^verbatim>\<open>prefix ? `${prefix}.${key}` : key\<close>\<close>

definition field_key :: "jsstring \<Rightarrow> jsstring \<Rightarrow> jsstring" where
  "field_key prefix key = (if prefix \<noteq> [] then prefix @ ascii ''.'' @ key else key)"

text \<open>\<^verbatim>\<open>Object.assign(strings, nestedStrings)\<close>\<close>

definition object_assign :: "jsstring props \<Rightarrow> jsstring props \<Rightarrow> jsstring props" where
  "object_assign strings nestedStrings =
     foldl (\<lambda>acc (k, s). assign_string acc k s) strings nestedStrings"

text \<open>\<^verbatim>\<open>value as string\<close>\<close>

fun as_string :: "jsval \<Rightarrow> jsstring" where
  "as_string (JStr s) = s"
| "as_string v = []"

text \<open>
  The loop of \<^verbatim>\<open>extractStringsFromObject\<close> over the entries of the object, with the
  mapping built so far.
\<close>

fun extract_loop :: "jsval props \<Rightarrow> jsstring \<Rightarrow> jsstring props \<Rightarrow> jsstring props" where
  "extract_loop [] prefix strings = strings"
| "extract_loop ((key, v) # rest) prefix strings =
     (case v of
        JNull \<Rightarrow> extract_loop rest prefix strings
      | JUndefined \<Rightarrow> extract_loop rest prefix strings
      | JObj ps \<Rightarrow>
          extract_loop rest prefix
            (object_assign strings (extract_loop ps (field_key prefix key) []))
      | _ \<Rightarrow>
          extract_loop rest prefix
            (if shouldIncludeField key v
             then assign_string strings (field_key prefix key) (as_string v)
             else strings))"

definition extractStringsFromObject :: "jsval props \<Rightarrow> jsstring \<Rightarrow> jsstring props" where
  "extractStringsFromObject obj prefix = extract_loop obj prefix []"

subsection \<open>The serializer\<close>

record resource_entry =
  re_l10nId :: jsstring
  re_ftlId :: jsstring
  re_value :: jsstring
  re_fieldPath :: jsstring
  re_entryName :: jsval
  re_entrypoint :: jsval

definition own_prop :: "jsval props \<Rightarrow> jsstring \<Rightarrow> jsval" where
  "own_prop ps k = (case map_of ps k of Some v \<Rightarrow> v | None \<Rightarrow> JUndefined)"

text \<open>
  One turn of the loop over \<^verbatim>\<open>strapiData\<close>: the entries that one CMS entry adds to
  \<^verbatim>\<open>allEntries\<close>, first for an entry of the given own properties.  The collected entries
  are declared with strings for \<^verbatim>\<open>l10nId\<close> and \<^verbatim>\<open>entryName\<close>; a truthy value of another type
  there is outside the model.
\<close>

definition object_resources :: "js_host \<Rightarrow> jsval props \<Rightarrow> js_error + resource_entry list" where
  "object_resources host ps =
     (let l10nId = own_prop ps (ascii ''l10nId'');
          name = own_prop ps (ascii ''name'');
          entrypoint = own_prop ps (ascii ''entrypoint'');
          entryData = filter (\<lambda>(k, v). k \<noteq> ascii ''l10nId'' \<and> k \<noteq> ascii ''name''
                                 \<and> k \<noteq> ascii ''entrypoint'') ps
      in if \<not> truthy l10nId then Inr []
         else (case l10nId of
                 JStr l \<Rightarrow>
                   if truthy name \<and> as_string name = [] then Inl Unmodelled
                   else Inr (map (\<lambda>(fieldPath, v).
                               let sanitizedValue = sanitizeContent host v;
                                   ftlId = generateFtlIdWithL10nId l fieldPath sanitizedValue
                               in \<lparr> re_l10nId = l, re_ftlId = ftlId, re_value = sanitizedValue,
                                    re_fieldPath = fieldPath, re_entryName = name,
                                    re_entrypoint = entrypoint \<rparr>)
                             (extractStringsFromObject entryData []))
               | _ \<Rightarrow> Inl Unmodelled))"

fun entry_resources :: "js_host \<Rightarrow> jsval \<Rightarrow> js_error + resource_entry list" where
  "entry_resources host (JObj ps) = object_resources host ps"
| "entry_resources host (JArrObj n ps) = object_resources host ps"
| "entry_resources host entry = Inr []"

fun collect_entries :: "js_host \<Rightarrow> jsval list \<Rightarrow> js_error + resource_entry list" where
  "collect_entries host [] = Inr []"
| "collect_entries host (entry # rest) =
     (case entry_resources host entry of
        Inl e \<Rightarrow> Inl e
      | Inr es \<Rightarrow>
          (case collect_entries host rest of
             Inl e \<Rightarrow> Inl e
           | Inr others \<Rightarrow> Inr (es @ others)))"

text \<open>The comparison function handed to \<^verbatim>\<open>sort\<close>.\<close>

definition compare_entries :: "js_host \<Rightarrow> resource_entry \<Rightarrow> resource_entry \<Rightarrow> int" where
  "compare_entries host a b =
     (if re_l10nId a \<noteq> re_l10nId b then localeCompare host (re_l10nId a) (re_l10nId b)
      else localeCompare host (re_fieldPath a) (re_fieldPath b))"

text \<open>
  \<^verbatim>\<open>Array.prototype.sort\<close> is stable; it is written here as the stable insertion sort.
  For a comparison function that is a consistent order every conforming host returns
  this result.
\<close>

fun insert_sorted :: "('a \<Rightarrow> 'a \<Rightarrow> int) \<Rightarrow> 'a \<Rightarrow> 'a list \<Rightarrow> 'a list" where
  "insert_sorted cmp x [] = [x]"
| "insert_sorted cmp x (y # ys) =
     (if cmp x y \<le> 0 then x # y # ys else y # insert_sorted cmp x ys)"

definition array_sort :: "('a \<Rightarrow> 'a \<Rightarrow> int) \<Rightarrow> 'a list \<Rightarrow> 'a list" where
  "array_sort cmp xs = foldr (insert_sorted cmp) xs []"

text \<open>The loop that drops an entry whose identifier has been seen.\<close>

fun unique_entries :: "jsstring list \<Rightarrow> resource_entry list \<Rightarrow> resource_entry list" where
  "unique_entries seenFtlIds [] = []"
| "unique_entries seenFtlIds (entry # rest) =
     (if re_ftlId entry \<in> set seenFtlIds then unique_entries seenFtlIds rest
      else entry # unique_entries (re_ftlId entry # seenFtlIds) rest)"

text \<open>
  \<^verbatim>\<open>generateFieldComment\<close>: \<^verbatim>\<open>.replace(/([A-Z])/g, ' $1')\<close>, then
  \<^verbatim>\<open>.replace(/^./, str => str.toUpperCase())\<close> (the dot matches no line terminator),
  then \<^verbatim>\<open>trim\<close>.
\<close>

definition isLineTerminator :: "jschar \<Rightarrow> bool" where
  "isLineTerminator c \<longleftrightarrow> c = 0x0A \<or> c = 0x0D \<or> c = 0x2028 \<or> c = 0x2029"

fun upper_first :: "js_host \<Rightarrow> jsstring \<Rightarrow> jsstring" where
  "upper_first host [] = []"
| "upper_first host (c # cs) =
     (if isLineTerminator c then c # cs else toUpperCase host [c] @ cs)"

definition readable :: "js_host \<Rightarrow> jsstring \<Rightarrow> jsstring" where
  "readable host name =
     trim (upper_first host
       (concat (map (\<lambda>c. if 0x41 \<le> c \<and> c \<le> 0x5A then [0x20, c] else [c]) name)))"

definition generateFieldComment :: "js_host \<Rightarrow> jsstring \<Rightarrow> jsstring" where
  "generateFieldComment host fieldPath =
     (let parts = split_on 0x2E fieldPath;
          componentName = (if parts ! 0 \<noteq> [] then parts ! 0 else ascii ''Unknown'');
          fieldName = (if 1 < length parts \<and> parts ! 1 \<noteq> [] then parts ! 1 else ascii ''Unknown'')
      in readable host fieldName @ ascii '' for '' @ readable host componentName)"

text \<open>
  The lines of the file.  A line keeps its kind until the final \<^verbatim>\<open>join\<close>, so that the
  data lines can be told from the comments.
\<close>

datatype ftl_line =
    Comment jsstring
  | Blank
  | Message jsstring jsstring

fun render_line :: "ftl_line \<Rightarrow> jsstring" where
  "render_line (Comment c) = ascii ''# '' @ c"
| "render_line Blank = []"
| "render_line (Message ftlId v) = ftlId @ ascii '' = '' @ v"

fun emit_entries :: "js_host \<Rightarrow> jsstring \<Rightarrow> resource_entry list \<Rightarrow> ftl_line list" where
  "emit_entries host currentL10nId [] = []"
| "emit_entries host currentL10nId (entry # rest) =
     (if re_l10nId entry \<noteq> currentL10nId
      then (if currentL10nId \<noteq> [] then [Blank] else [])
           @ [Comment (re_l10nId entry @ ascii '' - ''
                @ (if truthy (re_entryName entry) then as_string (re_entryName entry)
                   else ascii ''CMS Entry''))]
      else [])
     @ [Comment (generateFieldComment host (re_fieldPath entry)),
        Message (re_ftlId entry) (re_value entry)]
     @ emit_entries host (re_l10nId entry) rest"

definition ftl_lines :: "js_host \<Rightarrow> resource_entry list \<Rightarrow> ftl_line list" where
  "ftl_lines host allEntries =
     [Comment (ascii ''Generated on '' @ timestamp host),
      Comment (ascii ''FTL file for CMS localization''),
      Blank]
     @ emit_entries host []
         (unique_entries [] (array_sort (compare_entries host) allEntries))"

definition strapiToFtl :: "js_host \<Rightarrow> jsval list \<Rightarrow> js_error + jsstring" where
  "strapiToFtl host strapiData =
     (case collect_entries host strapiData of
        Inl e \<Rightarrow> Inl e
      | Inr allEntries \<Rightarrow> Inr (join [0x0A] (map render_line (ftl_lines host allEntries))))"

text \<open>The identifiers and values of the data lines, in the order of the file.\<close>

fun data_lines :: "ftl_line list \<Rightarrow> (jsstring \<times> jsstring) list" where
  "data_lines [] = []"
| "data_lines (Message ftlId v # ls) = (ftlId, v) # data_lines ls"
| "data_lines (l # ls) = data_lines ls"

subsection \<open>Predicates of the claims\<close>

text \<open>What the extractor asks of a string: not blank, not a URL, a date or a colour.\<close>

definition localizable :: "jsstring \<Rightarrow> bool" where
  "localizable s \<longleftrightarrow>
     trim s \<noteq> [] \<and> \<not> isUrl (JStr s) \<and> \<not> isDate (JStr s) \<and> \<not> isColor (JStr s)"

text \<open>An entry of \<^verbatim>\<open>strapiData\<close> that is not an object, or whose \<^verbatim>\<open>l10nId\<close> is absent or
  falsy.\<close>

fun lacks_l10nId :: "jsval \<Rightarrow> bool" where
  "lacks_l10nId (JObj ps) = (\<not> truthy (own_prop ps (ascii ''l10nId'')))"
| "lacks_l10nId (JArrObj n ps) = (\<not> truthy (own_prop ps (ascii ''l10nId'')))"
| "lacks_l10nId v = True"

subsection \<open>The entry of the specification's example\<close>

definition signin_entry :: jsval where
  "signin_entry =
     JObj [(ascii ''l10nId'', JStr (ascii ''signin-page'')),
           (ascii ''name'', JStr (ascii ''SignIn'')),
           (ascii ''headline'', JObj [(ascii ''text'', JStr (ascii ''Welcome back''))])]"

definition signin_resource :: resource_entry where
  "signin_resource =
     \<lparr> re_l10nId = ascii ''signin-page'',
       re_ftlId = ascii ''signin-page-headline-text-ebdf0f49'',
       re_value = ascii ''Welcome back'',
       re_fieldPath = ascii ''headline.text'',
       re_entryName = JStr (ascii ''SignIn''),
       re_entrypoint = JUndefined \<rparr>"

text \<open>
  What ECMAScript requires of \<^verbatim>\<open>localeCompare\<close>: a consistent comparison function, that
  is, a total order on the classes of strings that compare as equal.  There may be
  distinct strings in one class: canonically equivalent strings compare as equal.
\<close>

definition collation_order :: "js_host \<Rightarrow> bool" where
  "collation_order host \<longleftrightarrow>
     (\<forall>a b. (localeCompare host a b < 0) = (0 < localeCompare host b a))
     \<and> (\<forall>a b c. localeCompare host a b \<le> 0 \<and> localeCompare host b c \<le> 0
            \<longrightarrow> localeCompare host a c \<le> 0)"

text \<open>
  The order of the claim, in the words of the specification: by \<^verbatim>\<open>l10nId\<close>, and among
  entries whose \<^verbatim>\<open>l10nId\<close> compare as equal by \<^verbatim>\<open>fieldPath\<close>, both in the collation of the
  host.
\<close>

definition by_l10nId_then_fieldPath :: "js_host \<Rightarrow> resource_entry \<Rightarrow> resource_entry \<Rightarrow> bool" where
  "by_l10nId_then_fieldPath host a b \<longleftrightarrow>
     localeCompare host (re_l10nId a) (re_l10nId b) < 0
     \<or> (localeCompare host (re_l10nId a) (re_l10nId b) = 0
        \<and> localeCompare host (re_fieldPath a) (re_fieldPath b) \<le> 0)"

text \<open>No two distinct \<^verbatim>\<open>l10nId\<close> of the entries compare as equal.\<close>

definition no_tied_l10nIds :: "js_host \<Rightarrow> resource_entry list \<Rightarrow> bool" where
  "no_tied_l10nIds host es \<longleftrightarrow>
     list_all (\<lambda>a. list_all (\<lambda>b. localeCompare host (re_l10nId a) (re_l10nId b) = 0
                                 \<longrightarrow> re_l10nId a = re_l10nId b) es) es"

text \<open>A second component of the example's entry, with the same text.\<close>

definition signin_button_entry :: jsval where
  "signin_button_entry =
     JObj [(ascii ''l10nId'', JStr (ascii ''signin-page'')),
           (ascii ''name'', JStr (ascii ''SignIn'')),
           (ascii ''button'', JObj [(ascii ''label'', JStr (ascii ''Welcome back''))])]"

definition signin_button_resource :: resource_entry where
  "signin_button_resource =
     \<lparr> re_l10nId = ascii ''signin-page'',
       re_ftlId = ascii ''signin-page-button-label-ebdf0f49'',
       re_value = ascii ''Welcome back'',
       re_fieldPath = ascii ''button.label'',
       re_entryName = JStr (ascii ''SignIn''),
       re_entrypoint = JUndefined \<rparr>"

text \<open>
  A host whose collation compares the normal forms of the strings by code units, so
  that canonically equivalent strings compare as equal; and two entries whose
  \<^verbatim>\<open>l10nId\<close> are \<open>caf\<close> U+00E9 and \<open>cafe\<close> U+0301, the two spellings of one word.
\<close>

definition canonical_host :: js_host where
  "canonical_host =
     sample_host \<lparr> localeCompare :=
       (\<lambda>a b. code_unit_compare (normalize_NFD sample_host a) (normalize_NFD sample_host b)) \<rparr>"

definition cafe_composed_entry :: jsval where
  "cafe_composed_entry =
     JObj [(ascii ''l10nId'', JStr (ascii ''caf'' @ [0xE9])),
           (ascii ''b'', JObj [(ascii ''t'', JStr (ascii ''Welcome back''))])]"

definition cafe_decomposed_entry :: jsval where
  "cafe_decomposed_entry =
     JObj [(ascii ''l10nId'', JStr (ascii ''cafe'' @ [0x301])),
           (ascii ''a'', JObj [(ascii ''t'', JStr (ascii ''Welcome back''))])]"

definition cafe_composed_resource :: resource_entry where
  "cafe_composed_resource =
     \<lparr> re_l10nId = ascii ''caf'' @ [0xE9],
       re_ftlId = ascii ''caf'' @ [0xE9] @ ascii ''-b-t-ebdf0f49'',
       re_value = ascii ''Welcome back'',
       re_fieldPath = ascii ''b.t'',
       re_entryName = JUndefined,
       re_entrypoint = JUndefined \<rparr>"

definition cafe_decomposed_resource :: resource_entry where
  "cafe_decomposed_resource =
     \<lparr> re_l10nId = ascii ''cafe'' @ [0x301],
       re_ftlId = ascii ''cafe'' @ [0x301] @ ascii ''-a-t-ebdf0f49'',
       re_value = ascii ''Welcome back'',
       re_fieldPath = ascii ''a.t'',
       re_entryName = JUndefined,
       re_entrypoint = JUndefined \<rparr>"

subsection \<open>The merger\<close>

text \<open>
  The own enumerable properties of a value, as \<^verbatim>\<open>Object.entries\<close> lists them and as
  the spread \<^verbatim>\<open>{ ...v }\<close> copies them: those of an object, the elements of an array and
  the code units of a string under their indices, and none for the other primitives.
\<close>

fun own_entries :: "jsval \<Rightarrow> jsval props" where
  "own_entries (JObj ps) = ps"
| "own_entries (JArr xs) = array_props xs"
| "own_entries (JArrObj n ps) = ps"
| "own_entries (JStr s) = zip (map decimal [0..<length s]) (map (\<lambda>c. JStr [c]) s)"
| "own_entries v = []"

definition reserved_keys :: "jsstring list" where
  "reserved_keys = map ascii [''clientId'', ''entrypoint'', ''name'', ''l10nId'']"

text \<open>The inner loop: the fields of one component of \<^verbatim>\<open>localizedData\<close>.\<close>

fun merge_fields :: "jsval props \<Rightarrow> jsstring \<Rightarrow> jsval props \<Rightarrow> js_error + jsval props" where
  "merge_fields merged componentName [] = Inr merged"
| "merge_fields merged componentName ((fieldName, fieldValue) # rest) =
     (case fieldValue of
        JStr s \<Rightarrow>
          (case write_field merged componentName fieldName s of
             Inl e \<Rightarrow> Inl e
           | Inr merged' \<Rightarrow> merge_fields merged' componentName rest)
      | _ \<Rightarrow> merge_fields merged componentName rest)"

text \<open>The outer loop: the components of \<^verbatim>\<open>localizedData\<close>.\<close>

fun merge_components :: "jsval props \<Rightarrow> jsval props \<Rightarrow> js_error + jsval props" where
  "merge_components merged [] = Inr merged"
| "merge_components merged ((componentName, componentData) # rest) =
     (if componentName \<in> set reserved_keys then merge_components merged rest
      else if typeof_object componentData \<and> componentData \<noteq> JNull then
        (case merge_fields (ensure_component merged componentName) componentName
                (own_entries componentData) of
           Inl e \<Rightarrow> Inl e
         | Inr merged' \<Rightarrow> merge_components merged' rest)
      else merge_components merged rest)"

definition mergeCmsWithLocalization :: "jsval \<Rightarrow> jsval \<Rightarrow> js_error + jsval" where
  "mergeCmsWithLocalization baseData localizedData =
     (if \<not> truthy baseData then Inr localizedData
      else if \<not> truthy localizedData then Inr baseData
      else (case merge_components (own_entries baseData) (own_entries localizedData) of
              Inl e \<Rightarrow> Inl e
            | Inr merged \<Rightarrow> Inr (JObj merged)))"

text \<open>
  The fields of a component after the overlay of the fields of its localized
  counterpart: every string field is assigned in turn, the others are passed over.
\<close>

definition overlay_strings :: "jsval props \<Rightarrow> jsval props \<Rightarrow> jsval props" where
  "overlay_strings fs localized =
     foldl (\<lambda>acc (f, v). case v of JStr s \<Rightarrow> assign_string acc f (JStr s) | _ \<Rightarrow> acc)
       fs localized"

text \<open>\<^verbatim>\<open>typeof v === 'string'\<close>\<close>

fun typeof_string :: "jsval \<Rightarrow> bool" where
  "typeof_string (JStr s) = True"
| "typeof_string v = False"

text \<open>
  The fields that the overlay of a component starts from: the own properties of the
  object or the array that \<^verbatim>\<open>merged[componentName]\<close> holds, none when it holds nothing or
  a falsy value (the code puts an empty object there), and no answer when it holds
  another truthy value: a primitive, or a member of \<^verbatim>\<open>Object.prototype\<close>.
\<close>

definition component_fields :: "jsval props \<Rightarrow> jsstring \<Rightarrow> jsval props option" where
  "component_fields merged c =
     (case get_member merged c of
        Own v \<Rightarrow>
          if \<not> truthy v then Some [] else if typeof_object v then Some (own_entries v) else None
      | Inherited \<Rightarrow> None
      | Missing \<Rightarrow> Some [])"

definition holds_array :: "jsval props \<Rightarrow> jsstring \<Rightarrow> bool" where
  "holds_array merged c = (case get_member merged c of Own v \<Rightarrow> isArray v | _ \<Rightarrow> False)"

text \<open>
  The entries of \<^verbatim>\<open>localizedData\<close> that the claim has overlaid: objects and arrays under
  a key other than \<^verbatim>\<open>clientId\<close>, \<^verbatim>\<open>entrypoint\<close>, \<^verbatim>\<open>name\<close> and \<^verbatim>\<open>l10nId\<close>.
\<close>

definition overlaid :: "jsstring \<Rightarrow> jsval option \<Rightarrow> bool" where
  "overlaid c entry \<longleftrightarrow>
     (case entry of
        None \<Rightarrow> False
      | Some v \<Rightarrow>
          c \<noteq> ascii ''clientId'' \<and> c \<noteq> ascii ''entrypoint'' \<and> c \<noteq> ascii ''name''
          \<and> c \<noteq> ascii ''l10nId'' \<and> typeof_object v \<and> v \<noteq> JNull)"

text \<open>
  What the overlay of a component needs of the base: under the name of the component
  the base holds an object, an array, a falsy value or nothing (and the name is not one
  of \<^verbatim>\<open>Object.prototype\<close>); and no string goes to the \<^verbatim>\<open>length\<close> of an array.
\<close>

definition accepts_overlay :: "jsval props \<Rightarrow> jsstring \<Rightarrow> jsval \<Rightarrow> bool" where
  "accepts_overlay base c componentData \<longleftrightarrow>
     component_fields base c \<noteq> None
     \<and> \<not> (holds_array base c
          \<and> list_ex (\<lambda>(f, v). f = ascii ''length'' \<and> typeof_string v) (own_entries componentData))"

subsection \<open>The remote repository\<close>

text \<open>
  The repository on the remote host, as far as the calls of the class go: its pull
  requests, the newest first, which is the order in which \<^verbatim>\<open>pulls.list\<close> returns them; its
  branches, each with its files; and the number that the next pull request gets.  A file
  is the text it holds, and that text stands for its \<^verbatim>\<open>sha\<close> too.  The remote answers
  every call; a call that it refuses throws, and the method that made it throws in turn.
\<close>

datatype pr_state =
    PrOpen
  | PrClosed

record pull_request =
  pr_number :: nat
  pr_title :: jsstring
  pr_state :: pr_state
  pr_head_ref :: jsstring

record repository =
  repo_pulls :: "pull_request list"
  repo_branches :: "(jsstring \<times> jsstring props) list"
  repo_next_number :: nat

datatype api_error = RequestError

text \<open>A table with one entry set: replaced where the key is, added at the end otherwise.\<close>

fun put_entry :: "'k \<Rightarrow> 'v \<Rightarrow> ('k \<times> 'v) list \<Rightarrow> ('k \<times> 'v) list" where
  "put_entry k v [] = [(k, v)]"
| "put_entry k v ((k', v') # rest) =
     (if k' = k then (k, v) # rest else (k', v') # put_entry k v rest)"

text \<open>\<^verbatim>\<open>octokit.pulls.list({ state: 'open', per_page })\<close>: the first page.\<close>

definition pulls_list :: "repository \<Rightarrow> nat \<Rightarrow> pull_request list" where
  "pulls_list repo per_page =
     take per_page (filter (\<lambda>pr. pr_state pr = PrOpen) (repo_pulls repo))"

text \<open>\<^verbatim>\<open>octokit.pulls.get({ pull_number })\<close>\<close>

definition pulls_get :: "repository \<Rightarrow> nat \<Rightarrow> api_error + pull_request" where
  "pulls_get repo pull_number =
     (case find (\<lambda>pr. pr_number pr = pull_number) (repo_pulls repo) of
        None \<Rightarrow> Inl RequestError
      | Some pr \<Rightarrow> Inr pr)"

text \<open>\<^verbatim>\<open>octokit.repos.getContent({ path, ref })\<close>, of which the class reads the \<^verbatim>\<open>sha\<close>.\<close>

definition repos_getContent :: "repository \<Rightarrow> jsstring \<Rightarrow> jsstring \<Rightarrow> api_error + jsstring" where
  "repos_getContent repo path ref =
     (case map_of (repo_branches repo) ref of
        None \<Rightarrow> Inl RequestError
      | Some files \<Rightarrow>
          (case map_of files path of
             None \<Rightarrow> Inl RequestError
           | Some content \<Rightarrow> Inr content))"

text \<open>
  \<^verbatim>\<open>octokit.repos.createOrUpdateFileContents({ path, content, sha, branch })\<close>: the remote
  wants the \<^verbatim>\<open>sha\<close> of the file it replaces, and none for a file it creates.
\<close>

definition repos_createOrUpdateFileContents ::
  "repository \<Rightarrow> jsstring \<Rightarrow> jsstring \<Rightarrow> jsstring option \<Rightarrow> jsstring \<Rightarrow> api_error + repository" where
  "repos_createOrUpdateFileContents repo path content sha branch =
     (case map_of (repo_branches repo) branch of
        None \<Rightarrow> Inl RequestError
      | Some files \<Rightarrow>
          if map_of files path = sha
          then Inr (repo \<lparr> repo_branches :=
                       put_entry branch (put_entry path content files) (repo_branches repo) \<rparr>)
          else Inl RequestError)"

text \<open>\<^verbatim>\<open>octokit.git.getRef\<close>: the commit of a branch, which is its files here.\<close>

definition git_getRef :: "repository \<Rightarrow> jsstring \<Rightarrow> api_error + jsstring props" where
  "git_getRef repo branch =
     (case map_of (repo_branches repo) branch of
        None \<Rightarrow> Inl RequestError
      | Some files \<Rightarrow> Inr files)"

text \<open>\<^verbatim>\<open>octokit.git.createRef\<close>: a new branch at a commit.\<close>

definition git_createRef :: "repository \<Rightarrow> jsstring \<Rightarrow> jsstring props \<Rightarrow> api_error + repository" where
  "git_createRef repo branch files =
     (if map_of (repo_branches repo) branch \<noteq> None then Inl RequestError
      else Inr (repo \<lparr> repo_branches := repo_branches repo @ [(branch, files)] \<rparr>))"

text \<open>\<^verbatim>\<open>octokit.pulls.create({ title, head, base })\<close>\<close>

definition pulls_create :: "repository \<Rightarrow> jsstring \<Rightarrow> jsstring \<Rightarrow> api_error + repository" where
  "pulls_create repo title head' =
     (if map_of (repo_branches repo) head' = None then Inl RequestError
      else Inr (repo \<lparr> repo_pulls :=
                   \<lparr> pr_number = repo_next_number repo, pr_title = title, pr_state = PrOpen,
                     pr_head_ref = head' \<rparr> # repo_pulls repo,
                 repo_next_number := Suc (repo_next_number repo) \<rparr>))"

subsection \<open>The pull request of the localization file\<close>

text \<open>\<^verbatim>\<open>findExistingPR\<close>: the listing is asked for 100 pull requests at most.\<close>

definition findExistingPR :: "repository \<Rightarrow> pull_request option" where
  "findExistingPR repo =
     find (\<lambda>pr. (includes_str (pr_title pr) (ascii ''cms.ftl'')
                 \<or> includes_str (pr_title pr) (ascii ''CMS localization''))
                \<and> pr_state pr = PrOpen)
       (pulls_list repo 100)"

definition cms_file_path :: jsstring where
  "cms_file_path = ascii ''locales/en/cms.ftl''"

text \<open>
  \<^verbatim>\<open>updateExistingPR\<close>: the file is read on the head branch of the pull request for its
  \<^verbatim>\<open>sha\<close> (a failure of that call is caught), and written there.
\<close>

definition updateExistingPR :: "repository \<Rightarrow> nat \<Rightarrow> jsstring \<Rightarrow> api_error + repository" where
  "updateExistingPR repo prNumber ftlContent =
     (case pulls_get repo prNumber of
        Inl e \<Rightarrow> Inl e
      | Inr pr \<Rightarrow>
          (let fileSha = (case repos_getContent repo cms_file_path (pr_head_ref pr) of
                            Inl e \<Rightarrow> None
                          | Inr sha \<Rightarrow> Some sha)
           in repos_createOrUpdateFileContents repo cms_file_path ftlContent fileSha
                (pr_head_ref pr)))"

text \<open>The title of a new pull request; it starts with U+1F310.\<close>

definition cms_pr_title :: jsstring where
  "cms_pr_title = [0xD83C, 0xDF10] @ ascii '' Add CMS localization file (cms.ftl)''"

text \<open>
  \<^verbatim>\<open>createGitHubPR\<close>, with the configured base branch and the clock reading of
  \<^verbatim>\<open>Date.now()\<close>: a new branch at the commit of the base branch, the file written there
  (with the \<^verbatim>\<open>sha\<close> the file has on the base branch), and a pull request opened.
\<close>

definition createGitHubPR :: "repository \<Rightarrow> jsstring \<Rightarrow> nat \<Rightarrow> jsstring \<Rightarrow> api_error + repository" where
  "createGitHubPR repo branch now ftlContent =
     (let branchName = ascii ''cms-localization-'' @ decimal now in
      case git_getRef repo branch of
        Inl e \<Rightarrow> Inl e
      | Inr commit \<Rightarrow>
          (case git_createRef repo branchName commit of
             Inl e \<Rightarrow> Inl e
           | Inr repo1 \<Rightarrow>
               (let fileSha = (case repos_getContent repo1 cms_file_path branch of
                                 Inl e \<Rightarrow> None
                               | Inr sha \<Rightarrow> Some sha)
                in case repos_createOrUpdateFileContents repo1 cms_file_path ftlContent fileSha
                          branchName of
                     Inl e \<Rightarrow> Inl e
                   | Inr repo2 \<Rightarrow> pulls_create repo2 cms_pr_title branchName)))"

text \<open>
  Modelled from the spec: the caller of these three methods (the webhook handler) is
  not among the sources.  The specification has the reconciler find the pull request
  and take the update path, and take the create path when none is found.
\<close>

definition reconcile :: "repository \<Rightarrow> jsstring \<Rightarrow> nat \<Rightarrow> jsstring \<Rightarrow> api_error + repository" where
  "reconcile repo branch now ftlContent =
     (case findExistingPR repo of
        Some pr \<Rightarrow> updateExistingPR repo (pr_number pr) ftlContent
      | None \<Rightarrow> createGitHubPR repo branch now ftlContent)"

text \<open>
  The pull requests of the claim: open, with one of the two markers in the title.
\<close>

definition cms_pull_request :: "pull_request \<Rightarrow> bool" where
  "cms_pull_request pr \<longleftrightarrow>
     pr_state pr = PrOpen
     \<and> (includes_str (pr_title pr) (ascii ''cms.ftl'')
        \<or> includes_str (pr_title pr) (ascii ''CMS localization''))"

text \<open>
  A repository with the pull request of the localization file and nothing else open,
  and one where a hundred pull requests have been opened since.
\<close>

definition cms_pr :: pull_request where
  "cms_pr = \<lparr> pr_number = 1, pr_title = cms_pr_title, pr_state = PrOpen,
              pr_head_ref = ascii ''cms-localization-5'' \<rparr>"

definition small_repository :: repository where
  "small_repository =
     \<lparr> repo_pulls = [cms_pr],
       repo_branches = [(ascii ''main'', []),
                        (ascii ''cms-localization-5'', [(cms_file_path, ascii ''old'')])],
       repo_next_number = 2 \<rparr>"

definition typo_pr :: "nat \<Rightarrow> pull_request" where
  "typo_pr n = \<lparr> pr_number = n, pr_title = ascii ''Fix a typo'', pr_state = PrOpen,
                 pr_head_ref = ascii ''patch'' \<rparr>"

definition second_cms_pr :: pull_request where
  "second_cms_pr = \<lparr> pr_number = 102, pr_title = cms_pr_title, pr_state = PrOpen,
                     pr_head_ref = ascii ''cms-localization-7'' \<rparr>"

definition crowded_repository :: repository where
  "crowded_repository =
     \<lparr> repo_pulls = map typo_pr (rev [2..<102]) @ [cms_pr],
       repo_branches = [(ascii ''main'', []),
                        (ascii ''cms-localization-5'', [(cms_file_path, ascii ''old'')]),
                        (ascii ''patch'', [])],
       repo_next_number = 102 \<rparr>"

section \<open>Properties\<close>

subsection \<open>Strings\<close>

lemma split_on_nonempty: "split_on sep s \<noteq> []"
  by (induction s) (auto split: list.splits)

lemma join_split_on: "join [sep] (split_on sep s) = s"
proof (induction s)
  case Nil
  then show ?case by simp
next
  case (Cons c cs)
  obtain p ps where ps: "split_on sep cs = p # ps"
    using split_on_nonempty [of sep cs] by (cases "split_on sep cs") auto
  show ?case
  proof (cases "c = sep")
    case True
    with Cons ps show ?thesis by simp
  next
    case False
    with Cons ps show ?thesis by (cases ps) auto
  qed
qed

lemma split_on_no_sep: "list_all (\<lambda>p. sep \<notin> set p) (split_on sep s)"
proof (induction s)
  case Nil
  then show ?case by simp
next
  case (Cons c cs)
  then show ?case by (cases "split_on sep cs") auto
qed

lemma slice_middle:
  assumes "length xs \<ge> 2"
  shows "slice 1 (- 1) xs = butlast (tl xs)"
proof -
  obtain x ys where xs: "xs = x # ys" and ys: "ys \<noteq> []"
    using assms by (cases xs) (auto simp: Suc_le_eq)
  have "take (length ys - 1) ys = butlast ys"
    by (simp add: butlast_conv_take)
  with xs ys assms show ?thesis
    by (simp add: slice_def Let_def nat_diff_distrib' max_def)
qed

subsection \<open>C5: the inverse of the identifier generator\<close>


subsection \<open>The data line pattern\<close>

lemma isIdChar_not_ws: "isIdChar c \<Longrightarrow> \<not> isWhiteSpace c"
  by (auto simp: isIdChar_def isWhiteSpace_def word_le_nat_alt)

lemma isIdChar_not_eq: "isIdChar c \<Longrightarrow> c \<noteq> 0x3D"
  by (auto simp: isIdChar_def)

lemma ws_not_eq: "isWhiteSpace c \<Longrightarrow> c \<noteq> 0x3D \<and> c \<noteq> 0x22"
  by (auto simp: isWhiteSpace_def)

lemma ftl_line_match_no_quote:
  assumes "ftl_line_match line = Some (ftlId, v)"
  shows "0x22 \<notin> set v"
  using assms
  by (auto simp: ftl_line_match_def Let_def split: list.splits if_splits)

lemma replace_pair_absent: "b \<notin> set s \<Longrightarrow> replace_pair a b r s = s"
  by (induction a b r s rule: replace_pair.induct) auto

lemma trim_core:
  assumes "s \<noteq> []" "\<not> isWhiteSpace (hd s)" "\<not> isWhiteSpace (last s)"
    "list_all isWhiteSpace pre" "list_all isWhiteSpace post"
  shows "trim (pre @ s @ post) = s"
proof -
  have a: "dropWhile isWhiteSpace (pre @ s @ post) = s @ post"
    using assms by (cases s) (auto simp: dropWhile_append list_all_iff)
  have b: "dropWhile isWhiteSpace (rev post @ rev s) = rev s"
    using assms by (cases s rule: rev_cases) (auto simp: dropWhile_append list_all_iff)
  show ?thesis by (simp add: trim_def a b)
qed

lemma ftl_line_match_quoted:
  assumes "ftlId \<noteq> []" "list_all isIdChar ftlId" "list_all isWhiteSpace ws1" "list_all isWhiteSpace ws2"
  shows "ftl_line_match (ftlId @ ws1 @ 0x3D # ws2 @ 0x22 # v @ [0x22]) =
           (if 0x22 \<in> set v then None else Some (ftlId, v))"
proof -
  let ?rest = "ws1 @ 0x3D # ws2 @ 0x22 # v @ [0x22]"
  have h: "\<not> isIdChar (hd ?rest)"
    using assms(3) by (cases ws1) (auto simp: isIdChar_def isWhiteSpace_def word_le_nat_alt)
  have t: "takeWhile isIdChar (ftlId @ ?rest) = ftlId"
    using assms(2) h by (cases ?rest) (auto simp: takeWhile_append list_all_iff)
  have d: "dropWhile isIdChar (ftlId @ ?rest) = ?rest"
    using assms(2) h by (cases ?rest) (auto simp: dropWhile_append list_all_iff)
  have w1: "dropWhile isWhiteSpace ?rest = 0x3D # ws2 @ 0x22 # v @ [0x22]"
    using assms(3) by (auto simp: dropWhile_append list_all_iff isWhiteSpace_def)
  have w2: "dropWhile isWhiteSpace (ws2 @ 0x22 # v @ [0x22]) = 0x22 # v @ [0x22]"
    using assms(4) by (auto simp: dropWhile_append list_all_iff isWhiteSpace_def)
  show ?thesis
    using assms(1) by (simp add: ftl_line_match_def Let_def t d w1 w2)
qed

lemma convert_line_quoted:
  assumes "ftlId \<noteq> []" "list_all isIdChar ftlId" "list_all isWhiteSpace ws1" "list_all isWhiteSpace ws2"
    "list_all isWhiteSpace pre" "list_all isWhiteSpace post" "0x22 \<in> set v"
  shows "convert_line l10nId (pre @ (ftlId @ ws1 @ 0x3D # ws2 @ 0x22 # v @ [0x22]) @ post) strapiFormat = Inr strapiFormat"
proof -
  let ?core = "ftlId @ ws1 @ 0x3D # ws2 @ 0x22 # v @ [0x22]"
  have "\<not> isWhiteSpace (hd ?core)"
    using assms(1,2) isIdChar_not_ws by (cases ftlId) auto
  moreover have "\<not> isWhiteSpace (last ?core)" by (simp add: isWhiteSpace_def)
  moreover have "?core \<noteq> []" using assms(1) by simp
  ultimately have "trim (pre @ ?core @ post) = ?core"
    using assms(5,6) trim_core by blast
  then show ?thesis
    using ftl_line_match_quoted [OF assms(1-4), of v] assms(7)
    by (simp add: convert_line_def Let_def)
qed

subsection \<open>C9: a data line with a quote inside its value is dropped\<close>



subsection \<open>The sanitizer\<close>

lemma set_trim: "x \<in> set (trim s) \<Longrightarrow> x \<in> set s"
  by (auto simp: trim_def dest!: set_dropWhileD)

lemma trim_Nil: "trim [] = []"
  by (simp add: trim_def)

lemma trim_no_leading: "trim s \<noteq> [] \<Longrightarrow> \<not> isWhiteSpace (hd (trim s))"
proof -
  assume ne: "trim s \<noteq> []"
  let ?y = "dropWhile isWhiteSpace s"
  let ?z = "dropWhile isWhiteSpace (rev ?y)"
  have z: "?z \<noteq> []" using ne by (simp add: trim_def)
  have y: "?y \<noteq> []"
  proof
    assume e: "?y = []"
    have "?z = []" unfolding e by simp
    with z show False by blast
  qed
  have "\<exists>k. ?z = drop k (rev ?y)"
    by (metis dropWhile_eq_drop)
  then obtain k where k: "?z = drop k (rev ?y)" by blast
  have "rev ?z = take (length ?y - k) ?y"
    by (simp add: k rev_drop)
  moreover have "length ?y - k \<noteq> 0" using z k by auto
  ultimately have "hd (rev ?z) = hd ?y"
    by (metis hd_take length_greater_0_conv neq0_conv take_eq_Nil y)
  moreover have "\<not> isWhiteSpace (hd ?y)" using y hd_dropWhile by blast
  ultimately show ?thesis by (simp add: trim_def)
qed

lemma trim_no_trailing: "trim s \<noteq> [] \<Longrightarrow> \<not> isWhiteSpace (last (trim s))"
proof -
  assume ne: "trim s \<noteq> []"
  let ?z = "dropWhile isWhiteSpace (rev (dropWhile isWhiteSpace s))"
  have z: "?z \<noteq> []" using ne by (simp add: trim_def)
  then have "\<not> isWhiteSpace (hd ?z)" using hd_dropWhile by blast
  then show ?thesis using z by (simp add: trim_def last_rev)
qed

lemma trim_fixed:
  assumes "s \<noteq> [] \<longrightarrow> \<not> isWhiteSpace (hd s) \<and> \<not> isWhiteSpace (last s)"
  shows "trim s = s"
proof (cases "s = []")
  case True
  then show ?thesis by (simp add: trim_def)
next
  case False
  with assms have a: "dropWhile isWhiteSpace s = s"
    by (cases s) auto
  from False assms have "dropWhile isWhiteSpace (rev s) = rev s"
    by (cases s rule: rev_cases) auto
  with a show ?thesis by (simp add: trim_def)
qed

lemma trim_idem: "trim (trim s) = trim s"
  using trim_fixed [of "trim s"] trim_no_leading [of s] trim_no_trailing [of s] by blast

lemma remove_class_fixed: "list_all (\<lambda>c. \<not> cls c) s \<Longrightarrow> remove_class cls s = s"
  by (simp add: remove_class_def list_all_iff)

lemma remove_class_none: "list_all (\<lambda>c. \<not> cls c) (remove_class cls s)"
  by (simp add: remove_class_def list_all_iff)

lemma remove_class_keeps: "list_all P s \<Longrightarrow> list_all P (remove_class cls s)"
  by (simp add: remove_class_def list_all_iff)

lemma list_all_trim: "list_all P s \<Longrightarrow> list_all P (trim s)"
  using set_trim [of _ s] by (auto simp: list_all_iff)

lemma sanitizeContent_sanitized: "sanitized (sanitizeContent host s)"
  unfolding sanitized_def sanitizeContent_def
  by (simp add: trim_idem trim_Nil list_all_trim remove_class_none remove_class_keeps)

lemma sanitizeContent_fixed:
  assumes "sanitized s" "normalize_NFD host s = s"
  shows "sanitizeContent host s = s"
  using assms unfolding sanitized_def sanitizeContent_def
  by (simp add: remove_class_fixed)

subsection \<open>C3: the sanitizer run twice\<close>

text \<open>
  Claim C3, amended.  The result of the sanitizer has none of the characters it removes
  (combining marks U+0300 to U+036F, control characters other than tab, line feed and
  carriage return, zero-width characters and the byte order mark, directional isolates)
  and no white space at either end; and when that result is in normal form (NFD leaves
  it as it is), sanitizing it again returns it unchanged.
\<close>

theorem sanitizeContent_idempotent_when_normalized:
  "sanitized (sanitizeContent host s)
   \<and> (normalize_NFD host (sanitizeContent host s) = sanitizeContent host s \<longrightarrow>
        sanitizeContent host (sanitizeContent host s) = sanitizeContent host s)"
  using sanitizeContent_sanitized [of host s] sanitizeContent_fixed [of "sanitizeContent host s" host]
  by blast

text \<open>The claim's own example of transliteration, sanitized twice.\<close>

theorem sanitizeContent_idempotent_witness:
  "sanitizeContent sample_host ([0x20] @ ascii ''caf'' @ [0xE9, 0x200B, 0x20]) = ascii ''cafe''
   \<and> normalize_NFD sample_host (sanitizeContent sample_host ([0x20] @ ascii ''caf'' @ [0xE9, 0x200B, 0x20]))
       = sanitizeContent sample_host ([0x20] @ ascii ''caf'' @ [0xE9, 0x200B, 0x20])
   \<and> sanitizeContent sample_host (sanitizeContent sample_host ([0x20] @ ascii ''caf'' @ [0xE9, 0x200B, 0x20]))
       = sanitizeContent sample_host ([0x20] @ ascii ''caf'' @ [0xE9, 0x200B, 0x20])"
proof -
  let ?s = "[0x20] @ ascii ''caf'' @ [0xE9, 0x200B, 0x20]"
  have v: "sanitizeContent sample_host ?s = ascii ''cafe''"
    by code_simp
  have n: "normalize_NFD sample_host (sanitizeContent sample_host ?s) = sanitizeContent sample_host ?s"
    by code_simp
  from sanitizeContent_idempotent_when_normalized [of sample_host ?s, THEN conjunct2, rule_format, OF n] v n
  show ?thesis by blast
qed

text \<open>
  The claim as stated fails: the zero-width space keeps the two Hebrew marks of
  \<open>a\<close> U+0591 U+200B U+05B0 apart, so the first pass leaves their order; once it is
  gone, normalization puts the mark of class 10 before the mark of class 220.
\<close>

theorem sanitizeContent_not_idempotent:
  "sanitizeContent sample_host (sanitizeContent sample_host [0x61, 0x0591, 0x200B, 0x05B0])
     \<noteq> sanitizeContent sample_host [0x61, 0x0591, 0x200B, 0x05B0]"
  by code_simp

subsection \<open>The digest\<close>

lemma length_md5_bytes: "length (md5_bytes msg) = 16"
  by (simp add: md5_bytes_def le_bytes32_def split: prod.splits)

lemma length_hex: "length (concat (map hex_byte bs)) = 2 * length bs"
  by (induction bs) (simp_all add: hex_byte_def)

lemma length_md5_hex: "length (md5_hex s) = 32"
  by (simp add: md5_hex_def length_hex length_md5_bytes)

lemma hex_digit_hex: "n < 16 \<Longrightarrow> isHexDigit (hex_digit n)"
proof -
  have "list_all isHexDigit (ascii ''0123456789abcdef'')"
    by (simp add: ascii_def isHexDigit_def)
  moreover assume "n < 16"
  ultimately show ?thesis
    by (simp add: hex_digit_def list_all_length ascii_def)
qed

lemma hex_byte_hex: "list_all isHexDigit (hex_byte b)"
proof -
  have "unat b < 256" using unsigned_less [of b, where ?'a = nat] by simp
  then have "unat b div 16 < 16" by simp
  then show ?thesis by (simp add: hex_byte_def hex_digit_hex)
qed

lemma hex_md5_hex: "list_all isHexDigit (md5_hex s)"
  by (simp add: md5_hex_def list_all_iff) (use hex_byte_hex in \<open>auto simp: list_all_iff\<close>)

lemma list_all_take: "list_all P xs \<Longrightarrow> list_all P (take n xs)"
  by (auto simp: list_all_iff dest: in_set_takeD)

lemma md5_Welcome_back: "take 8 (md5_hex (ascii ''Welcome back'')) = ascii ''ebdf0f49''"
  by code_simp

lemma md5_v3159a: "take 8 (md5_hex (ascii ''v3159a'')) = ascii ''8c6a586d''"
  by code_simp

lemma md5_v3159T: "take 8 (md5_hex (ascii ''v3159T'')) = ascii ''8c6a586d''"
  by code_simp

subsection \<open>C2: the generated identifier\<close>

text \<open>
  Claim C2, amended.  The identifier is the \<^verbatim>\<open>l10nId\<close>, a dash, the field path with every
  dot replaced by a dash, a dash, and the first eight characters of the MD5 of the
  value in hexadecimal (eight lower-case hexadecimal digits); it is a function of its
  three arguments; and for one \<^verbatim>\<open>l10nId\<close> and field path two values get the same
  identifier exactly when those eight characters agree.
\<close>

theorem generateFtlIdWithL10nId_spec:
  "generateFtlIdWithL10nId l10nId fieldPath v =
     l10nId @ ascii ''-'' @ map (\<lambda>c. if c = 0x2E then 0x2D else c) fieldPath @ ascii ''-''
       @ take 8 (md5_hex v)
   \<and> length (take 8 (md5_hex v)) = 8
   \<and> list_all isHexDigit (take 8 (md5_hex v))
   \<and> (generateFtlIdWithL10nId l10nId fieldPath v = generateFtlIdWithL10nId l10nId fieldPath v'
        \<longleftrightarrow> take 8 (md5_hex v) = take 8 (md5_hex v'))"
  by (simp add: generateFtlIdWithL10nId_def Let_def length_md5_hex hex_md5_hex list_all_take)

theorem generateFtlIdWithL10nId_witness:
  "generateFtlIdWithL10nId (ascii ''signin-page'') (ascii ''headline.text'') (ascii ''Welcome back'')
     = ascii ''signin-page-headline-text-ebdf0f49''"
  using generateFtlIdWithL10nId_spec
    [of "ascii ''signin-page''" "ascii ''headline.text''" "ascii ''Welcome back''", THEN conjunct1]
  by (simp add: md5_Welcome_back) (simp add: ascii_def)

text \<open>
  The claim as stated fails where it says that a change of one character changes the
  eight characters: \<open>v3159a\<close> and \<open>v3159T\<close> are both sanitized values, differ in their
  last character, and both hash to \<open>8c6a586d\<close>.
\<close>

theorem generateFtlIdWithL10nId_collision:
  "ascii ''v3159a'' \<noteq> ascii ''v3159T''
   \<and> sanitizeContent sample_host (ascii ''v3159a'') = ascii ''v3159a''
   \<and> sanitizeContent sample_host (ascii ''v3159T'') = ascii ''v3159T''
   \<and> take 8 (md5_hex (ascii ''v3159a'')) = take 8 (md5_hex (ascii ''v3159T''))
   \<and> generateFtlIdWithL10nId (ascii ''signin-page'') (ascii ''headline.text'') (ascii ''v3159a'')
       = generateFtlIdWithL10nId (ascii ''signin-page'') (ascii ''headline.text'') (ascii ''v3159T'')"
proof -
  have "ascii ''v3159a'' \<noteq> ascii ''v3159T''"
    by code_simp
  moreover have "sanitizeContent sample_host (ascii ''v3159a'') = ascii ''v3159a''"
    by code_simp
  moreover have "sanitizeContent sample_host (ascii ''v3159T'') = ascii ''v3159T''"
    by code_simp
  ultimately show ?thesis
    by (simp add: generateFtlIdWithL10nId_def Let_def md5_v3159a md5_v3159T)
qed

subsection \<open>The extractor\<close>

lemma set_insert_index: "set (insert_index i kv ps) = insert kv (set ps)"
proof (induction ps)
  case Nil
  then show ?case by simp
next
  case (Cons p ps)
  obtain k' v' where p: "p = (k', v')" by (cases p)
  show ?case
  proof (cases "array_index k'")
    case None
    then show ?thesis by (simp add: p)
  next
    case (Some j)
    with Cons show ?thesis by (auto simp: p)
  qed
qed

lemma set_obj_set: "set (obj_set ps k v) \<subseteq> insert (k, v) (set ps)"
proof (cases "map_of ps k")
  case None
  then show ?thesis
    by (cases "array_index k") (simp_all add: obj_set_def set_insert_index subset_insertI)
next
  case (Some u)
  have "set (map (\<lambda>(k', v'). if k' = k then (k', v) else (k', v')) ps) \<subseteq> insert (k, v) (set ps)"
    by (induction ps) auto
  with Some show ?thesis by (simp add: obj_set_def)
qed

lemma set_assign_string: "set (assign_string ps k v) \<subseteq> insert (k, v) (set ps)"
  using set_obj_set [of ps k v] by (auto simp: assign_string_def)

lemma list_all_assign_string:
  "list_all P ps \<Longrightarrow> P (k, v) \<Longrightarrow> list_all P (assign_string ps k v)"
  using set_assign_string [of ps k v] by (auto simp: list_all_iff)

lemma list_all_object_assign:
  "list_all P strings \<Longrightarrow> list_all P nested \<Longrightarrow> list_all P (object_assign strings nested)"
  unfolding object_assign_def
proof (induction nested arbitrary: strings)
  case Nil
  then show ?case by simp
next
  case (Cons kv nested)
  obtain k s where kv: "kv = (k, s)" by (cases kv)
  from Cons.prems have "list_all P (assign_string strings k s)"
    by (simp add: kv list_all_assign_string)
  with Cons show ?case by (simp add: kv)
qed

lemma shouldIncludeField_localizable:
  assumes "shouldIncludeField key v"
  shows "localizable (as_string v)"
proof -
  from assms have i: "isStringValue v" and u: "\<not> (isUrl v \<or> isDate v \<or> isColor v)"
    unfolding shouldIncludeField_def by (simp_all split: if_splits)
  from i obtain s where v: "v = JStr s" by (cases v) simp_all
  with i u show ?thesis unfolding localizable_def by simp
qed

lemma extract_loop_step:
  assumes "list_all (\<lambda>(path, s). localizable s) strings"
  shows "list_all (\<lambda>(path, s). localizable s)
           (if shouldIncludeField key v
            then assign_string strings (field_key prefix key) (as_string v) else strings)"
  using assms shouldIncludeField_localizable [of key v]
  by (simp add: list_all_assign_string)

lemma extract_loop_localizable:
  "list_all (\<lambda>(path, s). localizable s) strings \<Longrightarrow>
   list_all (\<lambda>(path, s). localizable s) (extract_loop obj prefix strings)"
proof (induction obj prefix strings rule: extract_loop.induct)
  case (1 prefix strings)
  then show ?case by simp
next
  case (2 key v rest prefix strings)
  note step = extract_loop_step [OF "2.prems", of key v prefix]
  show ?case
  proof (cases v)
    case JUndefined
    with 2 show ?thesis by simp
  next
    case JNull
    with 2 show ?thesis by simp
  next
    case (JBool b)
    with "2.IH" step have "list_all (\<lambda>(path, s). localizable s)
        (extract_loop rest prefix
           (if shouldIncludeField key v
            then assign_string strings (field_key prefix key) (as_string v) else strings))"
      by blast
    with JBool show ?thesis by (simp split: if_splits)
  next
    case (JNum n)
    with "2.IH" step have "list_all (\<lambda>(path, s). localizable s)
        (extract_loop rest prefix
           (if shouldIncludeField key v
            then assign_string strings (field_key prefix key) (as_string v) else strings))"
      by blast
    with JNum show ?thesis by (simp split: if_splits)
  next
    case (JStr s)
    with "2.IH" step have "list_all (\<lambda>(path, s). localizable s)
        (extract_loop rest prefix
           (if shouldIncludeField key v
            then assign_string strings (field_key prefix key) (as_string v) else strings))"
      by blast
    with JStr show ?thesis by (simp split: if_splits)
  next
    case (JArr xs)
    with "2.IH" step have "list_all (\<lambda>(path, s). localizable s)
        (extract_loop rest prefix
           (if shouldIncludeField key v
            then assign_string strings (field_key prefix key) (as_string v) else strings))"
      by blast
    with JArr show ?thesis by (simp split: if_splits)
  next
    case (JArrObj n ps)
    with "2.IH" step have "list_all (\<lambda>(path, s). localizable s)
        (extract_loop rest prefix
           (if shouldIncludeField key v
            then assign_string strings (field_key prefix key) (as_string v) else strings))"
      by blast
    with JArrObj show ?thesis by (simp split: if_splits)
  next
    case (JObj ps)
    have "list_all (\<lambda>(path, s). localizable s) (extract_loop ps (field_key prefix key) [])"
      using "2.IH" JObj by auto
    with "2.prems" have "list_all (\<lambda>(path, s). localizable s)
        (object_assign strings (extract_loop ps (field_key prefix key) []))"
      by (rule list_all_object_assign)
    with "2.IH" JObj show ?thesis by auto
  qed
qed

lemma extractStringsFromObject_localizable:
  "list_all (\<lambda>(path, s). localizable s) (extractStringsFromObject obj prefix)"
  unfolding extractStringsFromObject_def by (rule extract_loop_localizable) simp

lemma object_resources_localizable:
  assumes "object_resources host ps = Inr es"
  shows "list_all (\<lambda>e. \<exists>s. localizable s \<and> re_value e = sanitizeContent host s) es"
proof -
  let ?data = "filter (\<lambda>(k, v). k \<noteq> ascii ''l10nId'' \<and> k \<noteq> ascii ''name''
                                 \<and> k \<noteq> ascii ''entrypoint'') ps"
  have "list_all (\<lambda>(path, s). localizable s) (extractStringsFromObject ?data [])"
    by (rule extractStringsFromObject_localizable)
  then have "\<And>f. list_all (\<lambda>e. \<exists>s. localizable s \<and> re_value e = sanitizeContent host s)
      (map (\<lambda>(fieldPath, v). \<lparr> re_l10nId = f fieldPath v, re_ftlId = g fieldPath v,
          re_value = sanitizeContent host v, re_fieldPath = fieldPath, re_entryName = n,
          re_entrypoint = p \<rparr>) (extractStringsFromObject ?data []))" for g n p
    by (auto simp: list_all_iff)
  with assms show ?thesis
    by (auto simp: object_resources_def Let_def split: if_splits jsval.splits)
qed

lemma entry_resources_localizable:
  assumes "entry_resources host entry = Inr es"
  shows "list_all (\<lambda>e. \<exists>s. localizable s \<and> re_value e = sanitizeContent host s) es"
proof (cases entry)
  case (JObj ps)
  with assms show ?thesis by (simp add: object_resources_localizable)
next
  case (JArrObj n ps)
  with assms show ?thesis by (simp add: object_resources_localizable)
qed (use assms in auto)

lemma collect_entries_localizable:
  "collect_entries host strapiData = Inr allEntries \<Longrightarrow>
   list_all (\<lambda>e. \<exists>s. localizable s \<and> re_value e = sanitizeContent host s) allEntries"
proof (induction strapiData arbitrary: allEntries)
  case Nil
  then show ?case by simp
next
  case (Cons entry rest)
  then show ?case
    by (auto split: sum.splits dest: entry_resources_localizable)
qed

subsection \<open>C6: what the extractor includes\<close>

text \<open>
  Claim C6.  At every depth of nesting, every string in the extractor's mapping is not
  blank after trimming and is not recognized as a URL, a date or a colour (so a string
  that is recognized is excluded however deep it lies); and every value that the
  serializer collects is the sanitized form of such a string.
\<close>

theorem extractor_excludes_unlocalizable:
  "list_all (\<lambda>(path, s). localizable s) (extractStringsFromObject obj prefix)
   \<and> (collect_entries host strapiData = Inr allEntries \<longrightarrow>
        list_all (\<lambda>e. \<exists>s. localizable s \<and> re_value e = sanitizeContent host s) allEntries)"
  using extractStringsFromObject_localizable collect_entries_localizable by blast

lemma lacks_entry_resources: "lacks_l10nId entry \<Longrightarrow> entry_resources host entry = Inr []"
  by (cases entry) (simp_all add: object_resources_def Let_def)

lemma collect_entries_append:
  "collect_entries host (xs @ ys) =
     (case collect_entries host xs of
        Inl e \<Rightarrow> Inl e
      | Inr es \<Rightarrow> (case collect_entries host ys of Inl e \<Rightarrow> Inl e | Inr others \<Rightarrow> Inr (es @ others)))"
  by (induction xs) (auto split: sum.splits)

subsection \<open>C7: entries without an l10nId\<close>

text \<open>
  Claim C7.  An entry of the input that is not an object, or whose \<^verbatim>\<open>l10nId\<close> is absent
  or falsy, yields no resource entries: the collected entries and the serialized file
  are those of the input without it.
\<close>

theorem entry_without_l10nId_skipped:
  assumes "lacks_l10nId entry"
  shows "entry_resources host entry = Inr []
    \<and> collect_entries host (before @ entry # after) = collect_entries host (before @ after)
    \<and> strapiToFtl host (before @ entry # after) = strapiToFtl host (before @ after)"
proof -
  have c: "collect_entries host (before @ entry # after) = collect_entries host (before @ after)"
    by (simp add: collect_entries_append lacks_entry_resources [OF assms] split: sum.splits)
  then show ?thesis
    by (simp add: strapiToFtl_def lacks_entry_resources [OF assms])
qed


lemma collect_signin: "collect_entries sample_host [signin_entry] = Inr [signin_resource]"
  by code_simp

theorem extractor_excludes_unlocalizable_witness:
  "extractStringsFromObject
     [(ascii ''hero'', JObj [(ascii ''cta'', JObj
        [(ascii ''link'', JStr (ascii ''https://example.com'')),
         (ascii ''color'', JStr (ascii ''#ff0000'')),
         (ascii ''shown'', JStr (ascii ''2024-01-01T00:00:00Z'')),
         (ascii ''label'', JStr (ascii ''Sign in''))])])] []
     = [(ascii ''hero.cta.label'', ascii ''Sign in'')]
   \<and> list_all (\<lambda>(path, s). localizable s)
       (extractStringsFromObject
          [(ascii ''hero'', JObj [(ascii ''cta'', JObj
             [(ascii ''link'', JStr (ascii ''https://example.com'')),
              (ascii ''color'', JStr (ascii ''#ff0000'')),
              (ascii ''shown'', JStr (ascii ''2024-01-01T00:00:00Z'')),
              (ascii ''label'', JStr (ascii ''Sign in''))])])] [])
   \<and> collect_entries sample_host [signin_entry] = Inr [signin_resource]
   \<and> list_all (\<lambda>e. \<exists>s. localizable s \<and> re_value e = sanitizeContent sample_host s)
       [signin_resource]"
proof -
  let ?obj = "[(ascii ''hero'', JObj [(ascii ''cta'', JObj
        [(ascii ''link'', JStr (ascii ''https://example.com'')),
         (ascii ''color'', JStr (ascii ''#ff0000'')),
         (ascii ''shown'', JStr (ascii ''2024-01-01T00:00:00Z'')),
         (ascii ''label'', JStr (ascii ''Sign in''))])])]"
  have x: "extractStringsFromObject ?obj [] = [(ascii ''hero.cta.label'', ascii ''Sign in'')]"
    by code_simp
  note t = extractor_excludes_unlocalizable
    [of ?obj "[]" sample_host "[signin_entry]" "[signin_resource]"]
  from t [THEN conjunct1] t [THEN conjunct2, rule_format, OF collect_signin] x collect_signin
  show ?thesis by blast
qed

theorem entry_without_l10nId_skipped_witness:
  "lacks_l10nId (JObj [(ascii ''name'', JStr (ascii ''SignIn'')),
       (ascii ''headline'', JObj [(ascii ''text'', JStr (ascii ''Welcome back''))])])
   \<and> entry_resources sample_host (JObj [(ascii ''name'', JStr (ascii ''SignIn'')),
       (ascii ''headline'', JObj [(ascii ''text'', JStr (ascii ''Welcome back''))])]) = Inr []
   \<and> strapiToFtl sample_host ([JNull] @ JObj [(ascii ''name'', JStr (ascii ''SignIn'')),
       (ascii ''headline'', JObj [(ascii ''text'', JStr (ascii ''Welcome back''))])] # [])
       = strapiToFtl sample_host ([JNull] @ [])
   \<and> strapiToFtl sample_host ([JNull] @ [])
       = Inr (ascii ''# Generated on 2024-01-01T00:00:00.000Z'' @ [0x0A]
              @ ascii ''# FTL file for CMS localization'' @ [0x0A])"
proof -
  let ?e = "JObj [(ascii ''name'', JStr (ascii ''SignIn'')),
       (ascii ''headline'', JObj [(ascii ''text'', JStr (ascii ''Welcome back''))])]"
  have l: "lacks_l10nId ?e"
    by code_simp
  have h: "strapiToFtl sample_host ([JNull] @ [])
       = Inr (ascii ''# Generated on 2024-01-01T00:00:00.000Z'' @ [0x0A]
              @ ascii ''# FTL file for CMS localization'' @ [0x0A])"
    by code_simp
  from entry_without_l10nId_skipped [OF l, of sample_host "[JNull]" "[]"] l h
  show ?thesis by blast
qed

subsection \<open>Sorting and the removal of duplicates\<close>

lemma set_insert_sorted: "set (insert_sorted cmp x ys) = insert x (set ys)"
  by (induction ys) auto

lemma mset_insert_sorted: "mset (insert_sorted cmp x ys) = add_mset x (mset ys)"
  by (induction ys) auto

lemma mset_array_sort: "mset (array_sort cmp xs) = mset xs"
  unfolding array_sort_def by (induction xs) (simp_all add: mset_insert_sorted)

lemma set_array_sort: "set (array_sort cmp xs) = set xs"
  using mset_array_sort [of cmp xs] by (metis set_mset_mset)

text \<open>
  The insertion sort orders a list by every relation that the comparison function
  decides on the elements of the list, when that relation is total and transitive.
\<close>

lemma sorted_insert_sorted:
  assumes agree: "\<And>a b. a \<in> S \<Longrightarrow> b \<in> S \<Longrightarrow> (cmp a b \<le> 0) = R a b"
    and total: "\<And>a b. R a b \<or> R b a"
    and trans: "\<And>a b c. R a b \<Longrightarrow> R b c \<Longrightarrow> R a c"
    and x: "x \<in> S" and ys: "set ys \<subseteq> S" and s: "sorted_wrt R ys"
  shows "sorted_wrt R (insert_sorted cmp x ys)"
  using ys s
proof (induction ys)
  case Nil
  then show ?case by simp
next
  case (Cons y ys)
  from Cons.prems have y: "y \<in> S" by simp
  show ?case
  proof (cases "cmp x y \<le> 0")
    case True
    with agree [OF x y] have xy: "R x y" by simp
    have "\<forall>z \<in> set ys. R x z"
    proof
      fix z assume "z \<in> set ys"
      with Cons.prems have "R y z" by simp
      with xy show "R x z" by (rule trans)
    qed
    with True xy Cons.prems show ?thesis by simp
  next
    case False
    with agree [OF x y] have "\<not> R x y" by simp
    with total [of x y] have "R y x" by simp
    with False Cons show ?thesis by (auto simp: set_insert_sorted)
  qed
qed

lemma sorted_array_sort:
  assumes agree: "\<And>a b. a \<in> S \<Longrightarrow> b \<in> S \<Longrightarrow> (cmp a b \<le> 0) = R a b"
    and total: "\<And>a b. R a b \<or> R b a"
    and trans: "\<And>a b c. R a b \<Longrightarrow> R b c \<Longrightarrow> R a c"
    and xs: "set xs \<subseteq> S"
  shows "sorted_wrt R (array_sort cmp xs)"
  using xs
proof (induction xs)
  case Nil
  then show ?case by (simp add: array_sort_def)
next
  case (Cons x xs)
  then have x: "x \<in> S" and s: "sorted_wrt R (array_sort cmp xs)" by simp_all
  from Cons.prems have "set (array_sort cmp xs) \<subseteq> S" by (simp add: set_array_sort)
  from sorted_insert_sorted [of S cmp R, OF agree total trans x this s]
  show ?case by (simp add: array_sort_def)
qed

text \<open>The order of the claim is total and transitive when the collation is an order.\<close>

lemma collation_refl: "collation_order host \<Longrightarrow> localeCompare host a a = 0"
  unfolding collation_order_def by (metis less_le not_less)

lemma collation_le: "collation_order host \<Longrightarrow>
    (localeCompare host a b \<le> 0) = (\<not> localeCompare host b a < 0)"
  unfolding collation_order_def by (metis not_less)

lemma collation_trans: "collation_order host \<Longrightarrow>
    localeCompare host a b \<le> 0 \<Longrightarrow> localeCompare host b c \<le> 0 \<Longrightarrow> localeCompare host a c \<le> 0"
  unfolding collation_order_def by blast

lemma by_l10nId_then_fieldPath_total:
  assumes "collation_order host"
  shows "by_l10nId_then_fieldPath host a b \<or> by_l10nId_then_fieldPath host b a"
  using collation_le [OF assms, of "re_l10nId a" "re_l10nId b"]
    collation_le [OF assms, of "re_l10nId b" "re_l10nId a"]
    collation_le [OF assms, of "re_fieldPath a" "re_fieldPath b"]
    collation_le [OF assms, of "re_fieldPath b" "re_fieldPath a"]
  unfolding by_l10nId_then_fieldPath_def by linarith

lemma by_l10nId_then_fieldPath_trans:
  assumes c: "collation_order host"
    and ab: "by_l10nId_then_fieldPath host a b" and bc: "by_l10nId_then_fieldPath host b c"
  shows "by_l10nId_then_fieldPath host a c"
proof -
  let ?l = "\<lambda>x y. localeCompare host (re_l10nId x) (re_l10nId y)"
  let ?f = "\<lambda>x y. localeCompare host (re_fieldPath x) (re_fieldPath y)"
  from ab have ab': "?l a b \<le> 0" unfolding by_l10nId_then_fieldPath_def by auto
  from bc have bc': "?l b c \<le> 0" unfolding by_l10nId_then_fieldPath_def by auto
  from collation_trans [OF c ab' bc'] have ac: "?l a c \<le> 0" .
  show ?thesis
  proof (cases "?l a c < 0")
    case True
    then show ?thesis by (simp add: by_l10nId_then_fieldPath_def)
  next
    case False
    with ac have ac0: "?l a c = 0" by simp
    then have ca: "?l c a \<le> 0" using collation_le [OF c, of "re_l10nId c" "re_l10nId a"] by simp
    from collation_trans [OF c bc' ca] have "?l b a \<le> 0" .
    then have ab0: "?l a b = 0"
      using ab' collation_le [OF c, of "re_l10nId b" "re_l10nId a"] by simp
    from collation_trans [OF c ca ab'] have "?l c b \<le> 0" .
    then have bc0: "?l b c = 0"
      using bc' collation_le [OF c, of "re_l10nId c" "re_l10nId b"] by simp
    from ab ab0 have "?f a b \<le> 0" unfolding by_l10nId_then_fieldPath_def by simp
    moreover from bc bc0 have "?f b c \<le> 0" unfolding by_l10nId_then_fieldPath_def by simp
    ultimately have "?f a c \<le> 0" by (rule collation_trans [OF c])
    with ac0 show ?thesis by (simp add: by_l10nId_then_fieldPath_def)
  qed
qed

text \<open>
  Where no two distinct \<^verbatim>\<open>l10nId\<close> compare as equal, the comparison function of the
  serializer decides the order of the claim.
\<close>

lemma compare_entries_decides:
  assumes c: "collation_order host"
    and t: "localeCompare host (re_l10nId a) (re_l10nId b) = 0 \<Longrightarrow> re_l10nId a = re_l10nId b"
  shows "(compare_entries host a b \<le> 0) = by_l10nId_then_fieldPath host a b"
proof (cases "re_l10nId a = re_l10nId b")
  case True
  with collation_refl [OF c, of "re_l10nId b"] show ?thesis
    by (simp add: compare_entries_def by_l10nId_then_fieldPath_def)
next
  case False
  with t have "localeCompare host (re_l10nId a) (re_l10nId b) \<noteq> 0" by blast
  with False show ?thesis
    by (auto simp: compare_entries_def by_l10nId_then_fieldPath_def)
qed

lemma set_unique_entries: "set (unique_entries seen xs) \<subseteq> set xs"
  by (induction xs arbitrary: seen) auto

lemma sorted_unique_entries:
  "sorted_wrt R xs \<Longrightarrow> sorted_wrt R (unique_entries seen xs)"
proof (induction xs arbitrary: seen)
  case Nil
  then show ?case by simp
next
  case (Cons x xs)
  then show ?case using set_unique_entries [of "re_ftlId x # seen" xs] by auto
qed

lemma unique_entries_unseen:
  "e \<in> set (unique_entries seen xs) \<Longrightarrow> re_ftlId e \<notin> set seen"
proof (induction xs arbitrary: seen)
  case Nil
  then show ?case by simp
next
  case (Cons x xs)
  show ?case
  proof (cases "re_ftlId x \<in> set seen")
    case True
    with Cons.prems have "e \<in> set (unique_entries seen xs)" by simp
    then show ?thesis by (rule Cons.IH)
  next
    case False
    with Cons.prems consider "e = x" | "e \<in> set (unique_entries (re_ftlId x # seen) xs)"
      by auto
    then show ?thesis
    proof cases
      case 1
      with False show ?thesis by simp
    next
      case 2
      from Cons.IH [OF 2] show ?thesis by simp
    qed
  qed
qed

lemma distinct_unique_entries: "distinct (map re_ftlId (unique_entries seen xs))"
proof (induction xs arbitrary: seen)
  case Nil
  then show ?case by simp
next
  case (Cons x xs)
  have "re_ftlId x \<notin> re_ftlId ` set (unique_entries (re_ftlId x # seen) xs)"
    using unique_entries_unseen [of _ "re_ftlId x # seen" xs] by force
  with Cons show ?case by simp
qed

text \<open>The first entry of a list that carries a given identifier.\<close>

lemma unique_entries_first:
  "filter (\<lambda>u. re_ftlId u = i) (unique_entries seen xs) =
     (if i \<in> set seen then [] else take 1 (filter (\<lambda>x. re_ftlId x = i) xs))"
proof (induction xs arbitrary: seen)
  case Nil
  then show ?case by simp
next
  case (Cons x xs)
  show ?case
  proof (cases "re_ftlId x \<in> set seen")
    case True
    with Cons [of seen] show ?thesis by auto
  next
    case False
    with Cons [of "re_ftlId x # seen"] show ?thesis by auto
  qed
qed

lemma data_lines_emit:
  "data_lines (emit_entries host cur es) = map (\<lambda>e. (re_ftlId e, re_value e)) es"
  by (induction es arbitrary: cur) simp_all

lemma data_lines_ftl_lines:
  "data_lines (ftl_lines host allEntries) =
     map (\<lambda>e. (re_ftlId e, re_value e))
       (unique_entries [] (array_sort (compare_entries host) allEntries))"
  by (simp add: ftl_lines_def data_lines_emit)

lemma take_1_hd: "xs \<noteq> [] \<Longrightarrow> take 1 xs = [hd xs]"
  by (cases xs) simp_all

text \<open>
  The serializer where no two distinct \<^verbatim>\<open>l10nId\<close> compare as equal: the data lines are
  the emitted entries in their order, the emitted entries are in the order of the claim
  and carry distinct identifiers, and the entry emitted for an identifier is the first
  one of the sorted list that carries it.
\<close>

lemma strapiToFtl_sorted_without_ties:
  assumes c: "collation_order host"
    and a: "collect_entries host strapiData = Inr allEntries"
    and t: "no_tied_l10nIds host allEntries"
  shows "strapiToFtl host strapiData = Inr (join [0x0A] (map render_line (ftl_lines host allEntries)))"
    and "data_lines (ftl_lines host allEntries) =
       map (\<lambda>e. (re_ftlId e, re_value e))
         (unique_entries [] (array_sort (compare_entries host) allEntries))"
    and "mset (array_sort (compare_entries host) allEntries) = mset allEntries"
    and "sorted_wrt (by_l10nId_then_fieldPath host) (array_sort (compare_entries host) allEntries)"
    and "sorted_wrt (by_l10nId_then_fieldPath host)
           (unique_entries [] (array_sort (compare_entries host) allEntries))"
    and "distinct (map re_ftlId (unique_entries [] (array_sort (compare_entries host) allEntries)))"
    and "e \<in> set allEntries \<Longrightarrow>
           filter (\<lambda>u. re_ftlId u = re_ftlId e)
               (unique_entries [] (array_sort (compare_entries host) allEntries))
             = [hd (filter (\<lambda>x. re_ftlId x = re_ftlId e)
                     (array_sort (compare_entries host) allEntries))]"
proof -
  let ?ordered = "array_sort (compare_entries host) allEntries"
  show "strapiToFtl host strapiData = Inr (join [0x0A] (map render_line (ftl_lines host allEntries)))"
    using a by (simp add: strapiToFtl_def)
  show "data_lines (ftl_lines host allEntries) =
       map (\<lambda>e. (re_ftlId e, re_value e)) (unique_entries [] ?ordered)"
    by (rule data_lines_ftl_lines)
  show "mset ?ordered = mset allEntries" by (rule mset_array_sort)
  have agree: "(compare_entries host x y \<le> 0) = by_l10nId_then_fieldPath host x y"
    if "x \<in> set allEntries" "y \<in> set allEntries" for x y
  proof (rule compare_entries_decides [OF c])
    assume "localeCompare host (re_l10nId x) (re_l10nId y) = 0"
    with t that show "re_l10nId x = re_l10nId y"
      by (auto simp: no_tied_l10nIds_def list_all_iff)
  qed
  show s: "sorted_wrt (by_l10nId_then_fieldPath host) ?ordered"
    by (rule sorted_array_sort [of "set allEntries", OF agree
          by_l10nId_then_fieldPath_total [OF c] by_l10nId_then_fieldPath_trans [OF c]])
       simp_all
  then show "sorted_wrt (by_l10nId_then_fieldPath host) (unique_entries [] ?ordered)"
    by (rule sorted_unique_entries)
  show "distinct (map re_ftlId (unique_entries [] ?ordered))"
    by (rule distinct_unique_entries)
  show "filter (\<lambda>u. re_ftlId u = re_ftlId e) (unique_entries [] ?ordered)
      = [hd (filter (\<lambda>x. re_ftlId x = re_ftlId e) ?ordered)]" if "e \<in> set allEntries"
  proof -
    from that have "filter (\<lambda>x. re_ftlId x = re_ftlId e) ?ordered \<noteq> []"
      by (auto simp: filter_empty_conv set_array_sort)
    from take_1_hd [OF this] show ?thesis by (simp add: unique_entries_first)
  qed
qed

lemma code_unit_compare_le: "code_unit_compare a b \<le> 0 \<longleftrightarrow> a \<le> b"
  by (induction a b rule: code_unit_compare.induct) auto

lemma code_unit_compare_less: "code_unit_compare a b < 0 \<longleftrightarrow> a < b"
  by (induction a b rule: code_unit_compare.induct) auto

lemma code_unit_compare_greater: "0 < code_unit_compare a b \<longleftrightarrow> b < a"
  by (induction a b rule: code_unit_compare.induct) auto

lemma collation_order_sample_host: "collation_order sample_host"
  unfolding collation_order_def
  by (auto simp: sample_host_def code_unit_compare_le code_unit_compare_less
      code_unit_compare_greater)

lemma collation_order_canonical_host: "collation_order canonical_host"
  unfolding collation_order_def
  by (auto simp: canonical_host_def code_unit_compare_le code_unit_compare_less
      code_unit_compare_greater)

lemma entry_resources_signin: "entry_resources sample_host signin_entry = Inr [signin_resource]"
  using collect_signin by (simp split: sum.splits)

lemma entry_resources_signin_button:
  "entry_resources sample_host signin_button_entry = Inr [signin_button_resource]"
  by code_simp

text \<open>
  For example the entry of the specification, a second component of it, and the entry
  again: the second component comes first, and the repeated line is written once.
\<close>

lemma strapiToFtl_sorted_example:
  "collect_entries sample_host [signin_entry, signin_button_entry, signin_entry]
       = Inr [signin_resource, signin_button_resource, signin_resource]
   \<and> no_tied_l10nIds sample_host [signin_resource, signin_button_resource, signin_resource]
   \<and> data_lines (ftl_lines sample_host [signin_resource, signin_button_resource, signin_resource])
       = [(ascii ''signin-page-button-label-ebdf0f49'', ascii ''Welcome back''),
          (ascii ''signin-page-headline-text-ebdf0f49'', ascii ''Welcome back'')]"
proof -
  have c: "collect_entries sample_host [signin_entry, signin_button_entry, signin_entry]
       = Inr [signin_resource, signin_button_resource, signin_resource]"
    by (simp add: entry_resources_signin entry_resources_signin_button)
  have t: "no_tied_l10nIds sample_host [signin_resource, signin_button_resource, signin_resource]"
    by (simp add: no_tied_l10nIds_def signin_resource_def signin_button_resource_def)
  have d: "data_lines (ftl_lines sample_host [signin_resource, signin_button_resource, signin_resource])
       = [(ascii ''signin-page-button-label-ebdf0f49'', ascii ''Welcome back''),
          (ascii ''signin-page-headline-text-ebdf0f49'', ascii ''Welcome back'')]"
    by code_simp
  from c t d show ?thesis by simp
qed

subsection \<open>C4: the order of the data lines\<close>

lemma entry_resources_cafe_composed:
  "entry_resources canonical_host cafe_composed_entry = Inr [cafe_composed_resource]"
  by code_simp

lemma entry_resources_cafe_decomposed:
  "entry_resources canonical_host cafe_decomposed_entry = Inr [cafe_decomposed_resource]"
  by code_simp

text \<open>
  Claim C4.  The data lines are not always in the order of (\<^verbatim>\<open>l10nId\<close>, \<^verbatim>\<open>fieldPath\<close>).  The
  comparison function asks \<^verbatim>\<open>a.l10nId !== b.l10nId\<close> before it compares the \<^verbatim>\<open>l10nId\<close>, so
  for two \<^verbatim>\<open>l10nId\<close> that differ but compare as equal it answers 0 and never looks at
  \<^verbatim>\<open>fieldPath\<close>.  On the host that compares normal forms, take an entry with the \<^verbatim>\<open>l10nId\<close>
  \<open>caf\<close> U+00E9 and the component \<^verbatim>\<open>b: { t: "Welcome back" }\<close>, followed by an entry with
  the \<^verbatim>\<open>l10nId\<close> \<open>cafe\<close> U+0301 and the component \<^verbatim>\<open>a: { t: "Welcome back" }\<close>.  The two
  \<^verbatim>\<open>l10nId\<close> compare as equal and \<^verbatim>\<open>b.t\<close> sorts after \<^verbatim>\<open>a.t\<close>, yet the returned file has the
  line of \<^verbatim>\<open>b.t\<close> before the line of \<^verbatim>\<open>a.t\<close>; and with the two entries exchanged the returned
  file is another one.
\<close>

theorem strapiToFtl_tied_l10nIds_unsorted:
  "collect_entries canonical_host [cafe_composed_entry, cafe_decomposed_entry]
     = Inr [cafe_composed_resource, cafe_decomposed_resource]
   \<and> localeCompare canonical_host (re_l10nId cafe_composed_resource)
         (re_l10nId cafe_decomposed_resource) = 0
   \<and> 0 < localeCompare canonical_host (re_fieldPath cafe_composed_resource)
         (re_fieldPath cafe_decomposed_resource)
   \<and> \<not> by_l10nId_then_fieldPath canonical_host cafe_composed_resource cafe_decomposed_resource
   \<and> strapiToFtl canonical_host [cafe_composed_entry, cafe_decomposed_entry]
     = Inr (ascii ''# Generated on 2024-01-01T00:00:00.000Z'' @ [0x0A]
            @ ascii ''# FTL file for CMS localization'' @ [0x0A, 0x0A]
            @ ascii ''# caf'' @ [0xE9] @ ascii '' - CMS Entry'' @ [0x0A]
            @ ascii ''# T for B'' @ [0x0A]
            @ ascii ''caf'' @ [0xE9] @ ascii ''-b-t-ebdf0f49 = Welcome back'' @ [0x0A, 0x0A]
            @ ascii ''# cafe'' @ [0x301] @ ascii '' - CMS Entry'' @ [0x0A]
            @ ascii ''# T for A'' @ [0x0A]
            @ ascii ''cafe'' @ [0x301] @ ascii ''-a-t-ebdf0f49 = Welcome back'')
   \<and> strapiToFtl canonical_host [cafe_decomposed_entry, cafe_composed_entry]
     = Inr (ascii ''# Generated on 2024-01-01T00:00:00.000Z'' @ [0x0A]
            @ ascii ''# FTL file for CMS localization'' @ [0x0A, 0x0A]
            @ ascii ''# cafe'' @ [0x301] @ ascii '' - CMS Entry'' @ [0x0A]
            @ ascii ''# T for A'' @ [0x0A]
            @ ascii ''cafe'' @ [0x301] @ ascii ''-a-t-ebdf0f49 = Welcome back'' @ [0x0A, 0x0A]
            @ ascii ''# caf'' @ [0xE9] @ ascii '' - CMS Entry'' @ [0x0A]
            @ ascii ''# T for B'' @ [0x0A]
            @ ascii ''caf'' @ [0xE9] @ ascii ''-b-t-ebdf0f49 = Welcome back'')"
proof -
  have c1: "collect_entries canonical_host [cafe_composed_entry, cafe_decomposed_entry]
     = Inr [cafe_composed_resource, cafe_decomposed_resource]"
    by (simp add: entry_resources_cafe_composed entry_resources_cafe_decomposed)
  have c2: "collect_entries canonical_host [cafe_decomposed_entry, cafe_composed_entry]
     = Inr [cafe_decomposed_resource, cafe_composed_resource]"
    by (simp add: entry_resources_cafe_composed entry_resources_cafe_decomposed)
  have t: "localeCompare canonical_host (re_l10nId cafe_composed_resource)
         (re_l10nId cafe_decomposed_resource) = 0"
    by code_simp
  have f: "0 < localeCompare canonical_host (re_fieldPath cafe_composed_resource)
         (re_fieldPath cafe_decomposed_resource)"
    by code_simp
  from t f have n: "\<not> by_l10nId_then_fieldPath canonical_host cafe_composed_resource
      cafe_decomposed_resource"
    by (simp add: by_l10nId_then_fieldPath_def)
  have "join [0x0A] (map render_line
          (ftl_lines canonical_host [cafe_composed_resource, cafe_decomposed_resource]))
     = ascii ''# Generated on 2024-01-01T00:00:00.000Z'' @ [0x0A]
            @ ascii ''# FTL file for CMS localization'' @ [0x0A, 0x0A]
            @ ascii ''# caf'' @ [0xE9] @ ascii '' - CMS Entry'' @ [0x0A]
            @ ascii ''# T for B'' @ [0x0A]
            @ ascii ''caf'' @ [0xE9] @ ascii ''-b-t-ebdf0f49 = Welcome back'' @ [0x0A, 0x0A]
            @ ascii ''# cafe'' @ [0x301] @ ascii '' - CMS Entry'' @ [0x0A]
            @ ascii ''# T for A'' @ [0x0A]
            @ ascii ''cafe'' @ [0x301] @ ascii ''-a-t-ebdf0f49 = Welcome back''"
    by code_simp
  then have a: "strapiToFtl canonical_host [cafe_composed_entry, cafe_decomposed_entry]
     = Inr (ascii ''# Generated on 2024-01-01T00:00:00.000Z'' @ [0x0A]
            @ ascii ''# FTL file for CMS localization'' @ [0x0A, 0x0A]
            @ ascii ''# caf'' @ [0xE9] @ ascii '' - CMS Entry'' @ [0x0A]
            @ ascii ''# T for B'' @ [0x0A]
            @ ascii ''caf'' @ [0xE9] @ ascii ''-b-t-ebdf0f49 = Welcome back'' @ [0x0A, 0x0A]
            @ ascii ''# cafe'' @ [0x301] @ ascii '' - CMS Entry'' @ [0x0A]
            @ ascii ''# T for A'' @ [0x0A]
            @ ascii ''cafe'' @ [0x301] @ ascii ''-a-t-ebdf0f49 = Welcome back'')"
    by (simp only: strapiToFtl_def c1 sum.case)
  have "join [0x0A] (map render_line
          (ftl_lines canonical_host [cafe_decomposed_resource, cafe_composed_resource]))
     = ascii ''# Generated on 2024-01-01T00:00:00.000Z'' @ [0x0A]
            @ ascii ''# FTL file for CMS localization'' @ [0x0A, 0x0A]
            @ ascii ''# cafe'' @ [0x301] @ ascii '' - CMS Entry'' @ [0x0A]
            @ ascii ''# T for A'' @ [0x0A]
            @ ascii ''cafe'' @ [0x301] @ ascii ''-a-t-ebdf0f49 = Welcome back'' @ [0x0A, 0x0A]
            @ ascii ''# caf'' @ [0xE9] @ ascii '' - CMS Entry'' @ [0x0A]
            @ ascii ''# T for B'' @ [0x0A]
            @ ascii ''caf'' @ [0xE9] @ ascii ''-b-t-ebdf0f49 = Welcome back''"
    by code_simp
  then have b: "strapiToFtl canonical_host [cafe_decomposed_entry, cafe_composed_entry]
     = Inr (ascii ''# Generated on 2024-01-01T00:00:00.000Z'' @ [0x0A]
            @ ascii ''# FTL file for CMS localization'' @ [0x0A, 0x0A]
            @ ascii ''# cafe'' @ [0x301] @ ascii '' - CMS Entry'' @ [0x0A]
            @ ascii ''# T for A'' @ [0x0A]
            @ ascii ''cafe'' @ [0x301] @ ascii ''-a-t-ebdf0f49 = Welcome back'' @ [0x0A, 0x0A]
            @ ascii ''# caf'' @ [0xE9] @ ascii '' - CMS Entry'' @ [0x0A]
            @ ascii ''# T for B'' @ [0x0A]
            @ ascii ''caf'' @ [0xE9] @ ascii ''-b-t-ebdf0f49 = Welcome back'')"
    by (simp only: strapiToFtl_def c2 sum.case)
  from c1 t f n a b show ?thesis by (intro conjI)
qed

subsection \<open>C1: the serializer's file read back\<close>

text \<open>
  Claim C1 says that the deserializer reconstructs from the serializer's file the
  sanitized values.  For the entry of the specification's example it does not: the
  data line is written as \<open>identifier = value\<close>, without quotes, and the deserializer
  reads only \<open>identifier = "value"\<close>; the result holds the metadata and no
  \<open>headline\<close>.  The same line with the value in quotes is dropped as well, since
  the first part of the identifier up to a dash is compared with the whole \<^verbatim>\<open>l10nId\<close>;
  a quoted line is read back when the \<^verbatim>\<open>l10nId\<close> has no dash.
\<close>

theorem strapiToFtl_output_not_read_back:
  "strapiToFtl sample_host [signin_entry]
     = Inr (ascii ''# Generated on 2024-01-01T00:00:00.000Z'' @ [0x0A]
            @ ascii ''# FTL file for CMS localization'' @ [0x0A, 0x0A]
            @ ascii ''# signin-page - SignIn'' @ [0x0A]
            @ ascii ''# Text for Headline'' @ [0x0A]
            @ ascii ''signin-page-headline-text-ebdf0f49 = Welcome back'')
   \<and> convertFtlToStrapiFormat (ascii ''signin-page'')
         (ascii ''# Generated on 2024-01-01T00:00:00.000Z'' @ [0x0A]
            @ ascii ''# FTL file for CMS localization'' @ [0x0A, 0x0A]
            @ ascii ''# signin-page - SignIn'' @ [0x0A]
            @ ascii ''# Text for Headline'' @ [0x0A]
            @ ascii ''signin-page-headline-text-ebdf0f49 = Welcome back'')
         signin_entry
     = Inr (JObj [(ascii ''clientId'', JUndefined), (ascii ''entrypoint'', JUndefined),
                  (ascii ''name'', JStr (ascii ''SignIn'')),
                  (ascii ''l10nId'', JStr (ascii ''signin-page''))])
   \<and> convertFtlToStrapiFormat (ascii ''signin-page'')
         (ascii ''signin-page-headline-text-ebdf0f49 = '' @ [0x22] @ ascii ''Welcome back'' @ [0x22])
         signin_entry
     = Inr (JObj [(ascii ''clientId'', JUndefined), (ascii ''entrypoint'', JUndefined),
                  (ascii ''name'', JStr (ascii ''SignIn'')),
                  (ascii ''l10nId'', JStr (ascii ''signin-page''))])
   \<and> convertFtlToStrapiFormat (ascii ''signin'')
         (ascii ''signin-headline-text-ebdf0f49 = '' @ [0x22] @ ascii ''Welcome back'' @ [0x22])
         signin_entry
     = Inr (JObj [(ascii ''clientId'', JUndefined), (ascii ''entrypoint'', JUndefined),
                  (ascii ''name'', JStr (ascii ''SignIn'')),
                  (ascii ''l10nId'', JStr (ascii ''signin-page'')),
                  (ascii ''headline'', JObj [(ascii ''text'', JStr (ascii ''Welcome back''))])])"
proof -
  have "join [0x0A] (map render_line (ftl_lines sample_host [signin_resource]))
     = ascii ''# Generated on 2024-01-01T00:00:00.000Z'' @ [0x0A]
            @ ascii ''# FTL file for CMS localization'' @ [0x0A, 0x0A]
            @ ascii ''# signin-page - SignIn'' @ [0x0A]
            @ ascii ''# Text for Headline'' @ [0x0A]
            @ ascii ''signin-page-headline-text-ebdf0f49 = Welcome back''"
    by code_simp
  then have a: "strapiToFtl sample_host [signin_entry]
     = Inr (ascii ''# Generated on 2024-01-01T00:00:00.000Z'' @ [0x0A]
            @ ascii ''# FTL file for CMS localization'' @ [0x0A, 0x0A]
            @ ascii ''# signin-page - SignIn'' @ [0x0A]
            @ ascii ''# Text for Headline'' @ [0x0A]
            @ ascii ''signin-page-headline-text-ebdf0f49 = Welcome back'')"
    by (simp only: strapiToFtl_def collect_signin sum.case)
  have b: "convertFtlToStrapiFormat (ascii ''signin-page'')
         (ascii ''# Generated on 2024-01-01T00:00:00.000Z'' @ [0x0A]
            @ ascii ''# FTL file for CMS localization'' @ [0x0A, 0x0A]
            @ ascii ''# signin-page - SignIn'' @ [0x0A]
            @ ascii ''# Text for Headline'' @ [0x0A]
            @ ascii ''signin-page-headline-text-ebdf0f49 = Welcome back'')
         signin_entry
     = Inr (JObj [(ascii ''clientId'', JUndefined), (ascii ''entrypoint'', JUndefined),
                  (ascii ''name'', JStr (ascii ''SignIn'')),
                  (ascii ''l10nId'', JStr (ascii ''signin-page''))])"
    by code_simp
  have c: "convertFtlToStrapiFormat (ascii ''signin-page'')
         (ascii ''signin-page-headline-text-ebdf0f49 = '' @ [0x22] @ ascii ''Welcome back'' @ [0x22])
         signin_entry
     = Inr (JObj [(ascii ''clientId'', JUndefined), (ascii ''entrypoint'', JUndefined),
                  (ascii ''name'', JStr (ascii ''SignIn'')),
                  (ascii ''l10nId'', JStr (ascii ''signin-page''))])"
    by code_simp
  have d: "convertFtlToStrapiFormat (ascii ''signin'')
         (ascii ''signin-headline-text-ebdf0f49 = '' @ [0x22] @ ascii ''Welcome back'' @ [0x22])
         signin_entry
     = Inr (JObj [(ascii ''clientId'', JUndefined), (ascii ''entrypoint'', JUndefined),
                  (ascii ''name'', JStr (ascii ''SignIn'')),
                  (ascii ''l10nId'', JStr (ascii ''signin-page'')),
                  (ascii ''headline'', JObj [(ascii ''text'', JStr (ascii ''Welcome back''))])])"
    by code_simp
  from a b c d show ?thesis by (intro conjI)
qed

subsection \<open>Assignments and the merger\<close>

lemma map_of_replace:
  "map_of (map (\<lambda>(k', v'). if k' = k then (k', v) else (k', v')) ps) c =
     (if c = k then (if map_of ps k = None then None else Some v) else map_of ps c)"
  by (induction ps) auto

lemma map_of_insert_index:
  "map_of ps k = None \<Longrightarrow>
   map_of (insert_index i (k, v) ps) c = (if c = k then Some v else map_of ps c)"
proof (induction ps)
  case Nil
  then show ?case by simp
next
  case (Cons p ps)
  obtain k' v' where p: "p = (k', v')" by (cases p)
  with Cons.prems have ne: "k' \<noteq> k" and r: "map_of ps k = None"
    by (auto split: if_splits)
  show ?case
  proof (cases "array_index k'")
    case None
    with ne show ?thesis by (simp add: p)
  next
    case (Some j)
    with ne Cons.IH [OF r] show ?thesis by (auto simp: p)
  qed
qed

lemma map_of_obj_set: "map_of (obj_set ps k v) c = (if c = k then Some v else map_of ps c)"
proof (cases "map_of ps k")
  case None
  then show ?thesis
    by (cases "array_index k")
      (auto simp: obj_set_def map_of_insert_index map_add_def split: option.splits)
next
  case (Some u)
  then show ?thesis by (simp add: obj_set_def map_of_replace)
qed

lemma map_of_assign_string:
  "f \<noteq> ascii ''__proto__'' \<Longrightarrow>
   map_of (assign_string fs g v) f = (if f = g then Some v else map_of fs f)"
  by (simp add: assign_string_def map_of_obj_set)

lemma map_of_overlay_strings:
  assumes "distinct (map fst localized)" "f \<noteq> ascii ''__proto__''"
  shows "map_of (overlay_strings fs localized) f =
     (case map_of localized f of Some (JStr s) \<Rightarrow> Some (JStr s) | _ \<Rightarrow> map_of fs f)"
  using assms(1)
proof (induction localized arbitrary: fs)
  case Nil
  then show ?case by (simp add: overlay_strings_def)
next
  case (Cons p localized)
  obtain g v where p: "p = (g, v)" by (cases p)
  let ?fs' = "case v of JStr s \<Rightarrow> assign_string fs g (JStr s) | _ \<Rightarrow> fs"
  have o: "overlay_strings fs (p # localized) = overlay_strings ?fs' localized"
    by (simp add: overlay_strings_def p)
  from Cons.prems have d: "distinct (map fst localized)" and n: "map_of localized g = None"
    by (auto simp: p map_of_eq_None_iff)
  have ih: "map_of (overlay_strings ?fs' localized) f =
     (case map_of localized f of Some (JStr s) \<Rightarrow> Some (JStr s) | _ \<Rightarrow> map_of ?fs' f)"
    by (rule Cons.IH [OF d])
  have key: "map_of ?fs' f =
      (if f = g then (case v of JStr s \<Rightarrow> Some (JStr s) | _ \<Rightarrow> map_of fs f) else map_of fs f)"
    by (cases v) (simp_all add: map_of_assign_string assms(2))
  show ?case
  proof (cases "f = g")
    case True
    with n ih key have "map_of (overlay_strings ?fs' localized) f =
        (case v of JStr s \<Rightarrow> Some (JStr s) | _ \<Rightarrow> map_of fs f)"
      by simp
    with True show ?thesis unfolding o by (simp add: p)
  next
    case False
    with ih key have "map_of (overlay_strings ?fs' localized) f =
        (case map_of localized f of Some (JStr s) \<Rightarrow> Some (JStr s) | _ \<Rightarrow> map_of fs f)"
      by (simp split: option.splits jsval.splits)
    with False show ?thesis unfolding o by (simp add: p)
  qed
qed


lemma get_member_cong: "map_of ps c = map_of qs c \<Longrightarrow> get_member ps c = get_member qs c"
  by (simp add: get_member_def)

lemma component_fields_cong:
  "map_of ps c = map_of qs c \<Longrightarrow> component_fields ps c = component_fields qs c"
  by (simp add: component_fields_def get_member_cong [of ps c qs])

lemma holds_array_cong:
  "map_of ps c = map_of qs c \<Longrightarrow> holds_array ps c = holds_array qs c"
  by (simp add: holds_array_def get_member_cong [of ps c qs])

lemma accepts_overlay_cong:
  "map_of ps c = map_of qs c \<Longrightarrow> accepts_overlay ps c lv = accepts_overlay qs c lv"
  by (simp add: accepts_overlay_def component_fields_cong [of ps c qs]
      holds_array_cong [of ps c qs])

text \<open>An array after an assignment to a key other than \<^verbatim>\<open>length\<close>.\<close>

lemma own_entries_array_value: "own_entries (array_value n ps) = ps"
proof (cases "map fst ps = map decimal [0..<n]")
  case True
  then have "length ps = n" by (metis length_map length_upt minus_nat.diff_0)
  with True have "array_props (map snd ps) = zip (map fst ps) (map snd ps)"
    by (simp add: array_props_def)
  also have "\<dots> = ps" by (rule zip_map_fst_snd)
  finally show ?thesis using True by (simp add: array_value_def)
next
  case False
  then show ?thesis by (simp add: array_value_def)
qed

lemma array_value_kind:
  "isArray (array_value n ps) \<and> typeof_object (array_value n ps) \<and> array_value n ps \<noteq> JNull"
  by (simp add: array_value_def)

lemma array_index_not_proto: "array_index f = Some i \<Longrightarrow> f \<noteq> ascii ''__proto__''"
  by (auto simp: array_index_def ascii_def isDigit_def split: if_splits)

lemma array_assign_entries:
  assumes "f \<noteq> ascii ''length''"
  shows "\<exists>arr. array_assign n ps f s = Inr arr \<and> isArray arr \<and> typeof_object arr
      \<and> arr \<noteq> JNull \<and> own_entries arr = assign_string ps f (JStr s)"
proof (cases "array_index f")
  case None
  with assms show ?thesis
    by (simp add: array_assign_def array_value_kind own_entries_array_value)
next
  case (Some i)
  from array_index_not_proto [OF Some] have "assign_string ps f (JStr s) = obj_set ps f (JStr s)"
    by (simp add: assign_string_def)
  with assms Some show ?thesis
    by (simp add: array_assign_def array_value_kind own_entries_array_value)
qed

text \<open>The assignment to a field of a component that is an object or an array.\<close>

declare write_field.simps [simp del]

lemma write_field_component:
  assumes m: "map_of merged c = Some v" and o: "typeof_object v" "v \<noteq> JNull"
    and l: "isArray v \<longrightarrow> f \<noteq> ascii ''length''"
  shows "\<exists>v'. write_field merged c f s = Inr (obj_set merged c v')
      \<and> typeof_object v' \<and> v' \<noteq> JNull \<and> isArray v' = isArray v
      \<and> own_entries v' = assign_string (own_entries v) f (JStr s)"
proof (cases v)
  case (JObj fs)
  with m show ?thesis
    by (intro exI [of _ "JObj (assign_string fs f (JStr s))"])
      (simp add: get_member_def write_field.simps)
next
  case (JArr xs)
  with l have "f \<noteq> ascii ''length''" by simp
  from array_assign_entries [OF this, of "length xs" "array_props xs" s] JArr m
  show ?thesis by (auto simp: get_member_def write_field.simps)
next
  case (JArrObj n ps)
  with l have "f \<noteq> ascii ''length''" by simp
  from array_assign_entries [OF this, of n ps s] JArrObj m
  show ?thesis by (auto simp: get_member_def write_field.simps)
qed (use o in simp_all)

lemma merge_fields_component:
  assumes "map_of merged c = Some v" "typeof_object v" "v \<noteq> JNull"
    "\<not> (isArray v \<and> list_ex (\<lambda>(f, u). f = ascii ''length'' \<and> typeof_string u) fl)"
  shows "\<exists>m' v'. merge_fields merged c fl = Inr m' \<and> map_of m' c = Some v'
      \<and> typeof_object v' \<and> v' \<noteq> JNull \<and> isArray v' = isArray v
      \<and> own_entries v' = overlay_strings (own_entries v) fl
      \<and> (\<forall>k. k \<noteq> c \<longrightarrow> map_of m' k = map_of merged k)"
  using assms
proof (induction fl arbitrary: merged v)
  case Nil
  then show ?case by (simp add: overlay_strings_def)
next
  case (Cons p fl)
  obtain f u where p: "p = (f, u)" by (cases p)
  from Cons.prems(4)
  have rest: "\<not> (isArray v \<and> list_ex (\<lambda>(f, u). f = ascii ''length'' \<and> typeof_string u) fl)"
    by auto
  show ?case
  proof (cases u)
    case (JStr s)
    with Cons.prems(4) have "isArray v \<longrightarrow> f \<noteq> ascii ''length''" by (auto simp: p)
    from write_field_component [OF Cons.prems(1-3) this, of s]
    obtain v1 where w: "write_field merged c f s = Inr (obj_set merged c v1)"
      and k1: "typeof_object v1" "v1 \<noteq> JNull" and a1: "isArray v1 = isArray v"
      and e1: "own_entries v1 = assign_string (own_entries v) f (JStr s)"
      by blast
    have m1: "map_of (obj_set merged c v1) c = Some v1" by (simp add: map_of_obj_set)
    from rest a1
    have r1: "\<not> (isArray v1 \<and> list_ex (\<lambda>(f, u). f = ascii ''length'' \<and> typeof_string u) fl)"
      by simp
    from Cons.IH [OF m1 k1 r1]
    obtain m' v' where f: "merge_fields (obj_set merged c v1) c fl = Inr m'"
      and c': "map_of m' c = Some v'" and k': "typeof_object v'" "v' \<noteq> JNull"
      and a': "isArray v' = isArray v1"
      and e': "own_entries v' = overlay_strings (own_entries v1) fl"
      and o': "\<forall>k. k \<noteq> c \<longrightarrow> map_of m' k = map_of (obj_set merged c v1) k"
      by blast
    have "merge_fields merged c (p # fl) = Inr m'" by (simp add: p JStr w f)
    moreover have "own_entries v' = overlay_strings (own_entries v) (p # fl)"
      by (simp add: e' e1 overlay_strings_def p JStr)
    moreover have "\<forall>k. k \<noteq> c \<longrightarrow> map_of m' k = map_of merged k"
      using o' by (simp add: map_of_obj_set)
    ultimately show ?thesis using c' k' a' a1 by auto
  next
    case JUndefined
    from Cons.IH [OF Cons.prems(1-3) rest] show ?thesis
      by (simp add: p JUndefined overlay_strings_def)
  next
    case JNull
    from Cons.IH [OF Cons.prems(1-3) rest] show ?thesis
      by (simp add: p JNull overlay_strings_def)
  next
    case (JBool b)
    from Cons.IH [OF Cons.prems(1-3) rest] show ?thesis
      by (simp add: p JBool overlay_strings_def)
  next
    case (JNum n)
    from Cons.IH [OF Cons.prems(1-3) rest] show ?thesis
      by (simp add: p JNum overlay_strings_def)
  next
    case (JArr xs)
    from Cons.IH [OF Cons.prems(1-3) rest] show ?thesis
      by (simp add: p JArr overlay_strings_def)
  next
    case (JArrObj n ps)
    from Cons.IH [OF Cons.prems(1-3) rest] show ?thesis
      by (simp add: p JArrObj overlay_strings_def)
  next
    case (JObj ps)
    from Cons.IH [OF Cons.prems(1-3) rest] show ?thesis
      by (simp add: p JObj overlay_strings_def)
  qed
qed

lemma map_of_ensure_component:
  "map_of (ensure_component merged c) k =
     (if k = c \<and> \<not> member_truthy (get_member merged c) then Some (JObj []) else map_of merged k)"
  by (simp add: ensure_component_def map_of_obj_set)

lemma ensure_component_fields:
  assumes "component_fields merged c = Some fs"
  shows "\<exists>v. map_of (ensure_component merged c) c = Some v \<and> typeof_object v \<and> v \<noteq> JNull
      \<and> isArray v = holds_array merged c \<and> own_entries v = fs"
proof (cases "get_member merged c")
  case (Own v)
  then have m: "map_of merged c = Some v"
    by (auto simp: get_member_def split: option.splits if_splits)
  show ?thesis
  proof (cases "truthy v")
    case True
    with assms Own m show ?thesis
      by (auto simp: component_fields_def holds_array_def map_of_ensure_component
          split: if_splits)
  next
    case False
    then have "\<not> isArray v" by (cases v) simp_all
    with False assms Own show ?thesis
      by (simp add: component_fields_def holds_array_def map_of_ensure_component)
  qed
next
  case Inherited
  with assms show ?thesis by (simp add: component_fields_def)
next
  case Missing
  with assms show ?thesis
    by (simp add: component_fields_def holds_array_def map_of_ensure_component)
qed

lemma overlaid_reserved:
  "overlaid c (Some v) \<longleftrightarrow> c \<notin> set reserved_keys \<and> typeof_object v \<and> v \<noteq> JNull"
  by (auto simp: overlaid_def reserved_keys_def)

text \<open>
  The outer loop returns when the base accepts every overlay, and then: a key that is
  not overlaid holds what it held, and an overlaid component holds the fields it started
  from with the string fields of its localized counterpart assigned over them.
\<close>

lemma merge_components_spec:
  assumes "distinct (map fst lps)"
    "list_all (\<lambda>(c, lv). overlaid c (Some lv) \<longrightarrow> accepts_overlay merged c lv) lps"
  shows "\<exists>m. merge_components merged lps = Inr m
      \<and> (\<forall>c. \<not> overlaid c (map_of lps c) \<longrightarrow> map_of m c = map_of merged c)
      \<and> (\<forall>c lv fs. map_of lps c = Some lv \<and> overlaid c (Some lv)
            \<and> component_fields merged c = Some fs \<longrightarrow>
            (\<exists>v. map_of m c = Some v \<and> typeof_object v \<and> v \<noteq> JNull
               \<and> isArray v = holds_array merged c
               \<and> own_entries v = overlay_strings fs (own_entries lv)))"
  using assms
proof (induction lps arbitrary: merged)
  case Nil
  then show ?case by (simp add: overlaid_def)
next
  case (Cons p lps)
  obtain k w where p: "p = (k, w)" by (cases p)
  from Cons.prems(1) have d: "distinct (map fst lps)" and nk: "map_of lps k = None"
    by (auto simp: p map_of_eq_None_iff)
  from Cons.prems(2)
  have rest: "list_all (\<lambda>(c, lv). overlaid c (Some lv) \<longrightarrow> accepts_overlay merged c lv) lps"
    by simp
  show ?case
  proof (cases "overlaid k (Some w)")
    case False
    then have s: "merge_components merged (p # lps) = merge_components merged lps"
      by (auto simp: p overlaid_reserved)
    from Cons.IH [OF d rest] obtain m where m: "merge_components merged lps = Inr m"
      and kept: "\<forall>c. \<not> overlaid c (map_of lps c) \<longrightarrow> map_of m c = map_of merged c"
      and over: "\<forall>c lv fs. map_of lps c = Some lv \<and> overlaid c (Some lv)
            \<and> component_fields merged c = Some fs \<longrightarrow>
            (\<exists>v. map_of m c = Some v \<and> typeof_object v \<and> v \<noteq> JNull
               \<and> isArray v = holds_array merged c
               \<and> own_entries v = overlay_strings fs (own_entries lv))"
      by blast
    have "\<forall>c. \<not> overlaid c (map_of (p # lps) c) \<longrightarrow> map_of m c = map_of merged c"
    proof (intro allI impI)
      fix c assume n: "\<not> overlaid c (map_of (p # lps) c)"
      show "map_of m c = map_of merged c"
      proof (cases "c = k")
        case True
        with nk have "\<not> overlaid c (map_of lps c)" by (simp add: overlaid_def)
        with kept show ?thesis by simp
      next
        case False
        with n have "\<not> overlaid c (map_of lps c)" by (simp add: p)
        with kept show ?thesis by simp
      qed
    qed
    moreover have "\<forall>c lv fs. map_of (p # lps) c = Some lv \<and> overlaid c (Some lv)
            \<and> component_fields merged c = Some fs \<longrightarrow>
            (\<exists>v. map_of m c = Some v \<and> typeof_object v \<and> v \<noteq> JNull
               \<and> isArray v = holds_array merged c
               \<and> own_entries v = overlay_strings fs (own_entries lv))"
    proof (intro allI impI)
      fix c lv fs
      assume a: "map_of (p # lps) c = Some lv \<and> overlaid c (Some lv)
            \<and> component_fields merged c = Some fs"
      with False have "c \<noteq> k" by (auto simp: p)
      with a have "map_of lps c = Some lv" by (simp add: p)
      with a over show "\<exists>v. map_of m c = Some v \<and> typeof_object v \<and> v \<noteq> JNull
               \<and> isArray v = holds_array merged c
               \<and> own_entries v = overlay_strings fs (own_entries lv)"
        by blast
    qed
    ultimately show ?thesis using s m by simp
  next
    case True
    with Cons.prems(2) have acc: "accepts_overlay merged k w" by (simp add: p)
    then obtain fs0 where fs0: "component_fields merged k = Some fs0"
      by (auto simp: accepts_overlay_def)
    from ensure_component_fields [OF fs0]
    obtain v0 where v0: "map_of (ensure_component merged k) k = Some v0"
      and k0: "typeof_object v0" "v0 \<noteq> JNull" and a0: "isArray v0 = holds_array merged k"
      and e0: "own_entries v0 = fs0"
      by blast
    from acc a0
    have l0: "\<not> (isArray v0
        \<and> list_ex (\<lambda>(f, u). f = ascii ''length'' \<and> typeof_string u) (own_entries w))"
      by (simp add: accepts_overlay_def)
    from merge_fields_component [OF v0 k0 l0]
    obtain m1 v1 where f1: "merge_fields (ensure_component merged k) k (own_entries w) = Inr m1"
      and c1: "map_of m1 k = Some v1" and k1: "typeof_object v1" "v1 \<noteq> JNull"
      and a1: "isArray v1 = isArray v0"
      and e1: "own_entries v1 = overlay_strings (own_entries v0) (own_entries w)"
      and o1: "\<forall>c. c \<noteq> k \<longrightarrow> map_of m1 c = map_of (ensure_component merged k) c"
      by blast
    have same: "map_of m1 c = map_of merged c" if "c \<noteq> k" for c
      using o1 that by (simp add: map_of_ensure_component)
    have rest1: "list_all (\<lambda>(c, lv). overlaid c (Some lv) \<longrightarrow> accepts_overlay m1 c lv) lps"
    proof -
      have "accepts_overlay m1 c lv" if "(c, lv) \<in> set lps" "overlaid c (Some lv)" for c lv
      proof -
        from that(1) nk have "c \<noteq> k" by (force simp: map_of_eq_None_iff)
        from same [OF this] have "accepts_overlay m1 c lv = accepts_overlay merged c lv"
          by (rule accepts_overlay_cong)
        with rest that show ?thesis by (auto simp: list_all_iff)
      qed
      then show ?thesis by (auto simp: list_all_iff)
    qed
    from True have s: "merge_components merged (p # lps) = merge_components m1 lps"
      by (simp add: p overlaid_reserved f1)
    from Cons.IH [OF d rest1] obtain m where m: "merge_components m1 lps = Inr m"
      and kept: "\<forall>c. \<not> overlaid c (map_of lps c) \<longrightarrow> map_of m c = map_of m1 c"
      and over: "\<forall>c lv fs. map_of lps c = Some lv \<and> overlaid c (Some lv)
            \<and> component_fields m1 c = Some fs \<longrightarrow>
            (\<exists>v. map_of m c = Some v \<and> typeof_object v \<and> v \<noteq> JNull
               \<and> isArray v = holds_array m1 c
               \<and> own_entries v = overlay_strings fs (own_entries lv))"
      by blast
    from nk kept have mk: "map_of m k = map_of m1 k" by (simp add: overlaid_def)
    have "\<forall>c. \<not> overlaid c (map_of (p # lps) c) \<longrightarrow> map_of m c = map_of merged c"
    proof (intro allI impI)
      fix c assume n: "\<not> overlaid c (map_of (p # lps) c)"
      with True have ck: "c \<noteq> k" by (auto simp: p)
      with n have "\<not> overlaid c (map_of lps c)" by (simp add: p)
      with kept same [OF ck] show "map_of m c = map_of merged c" by simp
    qed
    moreover have "\<forall>c lv fs. map_of (p # lps) c = Some lv \<and> overlaid c (Some lv)
            \<and> component_fields merged c = Some fs \<longrightarrow>
            (\<exists>v. map_of m c = Some v \<and> typeof_object v \<and> v \<noteq> JNull
               \<and> isArray v = holds_array merged c
               \<and> own_entries v = overlay_strings fs (own_entries lv))"
    proof (intro allI impI)
      fix c lv fs
      assume a: "map_of (p # lps) c = Some lv \<and> overlaid c (Some lv)
            \<and> component_fields merged c = Some fs"
      show "\<exists>v. map_of m c = Some v \<and> typeof_object v \<and> v \<noteq> JNull
               \<and> isArray v = holds_array merged c
               \<and> own_entries v = overlay_strings fs (own_entries lv)"
      proof (cases "c = k")
        case True
        with a have "lv = w" and "fs = fs0" using fs0 by (simp_all add: p)
        with True mk c1 k1 a1 a0 e1 e0 show ?thesis by simp
      next
        case False
        with a have l: "map_of lps c = Some lv" by (simp add: p)
        from same [OF False] have cf: "component_fields m1 c = component_fields merged c"
          and ha: "holds_array m1 c = holds_array merged c"
          by (rule component_fields_cong, rule holds_array_cong)
        from a l cf have "map_of lps c = Some lv \<and> overlaid c (Some lv)
            \<and> component_fields m1 c = Some fs"
          by simp
        with over have "\<exists>v. map_of m c = Some v \<and> typeof_object v \<and> v \<noteq> JNull
               \<and> isArray v = holds_array m1 c
               \<and> own_entries v = overlay_strings fs (own_entries lv)"
          by blast
        with ha show ?thesis by simp
      qed
    qed
    ultimately show ?thesis using s m by simp
  qed
qed

lemma mergeCmsWithLocalization_example:
  "mergeCmsWithLocalization
     (JObj [(ascii ''headline'', JObj [(ascii ''text'', JStr (ascii ''A''))])])
     (JObj [(ascii ''headline'', JObj [(ascii ''text'', JStr (ascii ''B''))]),
            (ascii ''l10nId'', JStr (ascii ''x''))])
   = Inr (JObj [(ascii ''headline'', JObj [(ascii ''text'', JStr (ascii ''B''))])])"
  by code_simp

subsection \<open>C8: the merger\<close>

text \<open>
  Claim C8, as amended.  The example of the claim evaluates as stated.  A falsy base
  returns the localized value and a falsy localized value the base.  Otherwise, when
  under the name of every overlaid component the base holds an object, an array, a
  falsy value or nothing (the name not being one of \<^verbatim>\<open>Object.prototype\<close>), and no string
  goes to the \<^verbatim>\<open>length\<close> of an array: the merger returns an object; under
  \<^verbatim>\<open>clientId\<close>, \<^verbatim>\<open>entrypoint\<close>, \<^verbatim>\<open>name\<close> and \<^verbatim>\<open>l10nId\<close>, and under every other key that the
  localized value does not overlay (it holds no object there), the result holds what the
  base holds; and an overlaid component is an object, or an array where the base holds
  an array, whose own properties are those the base holds there with every string field
  of the localized component assigned over them in turn.  Assigned in turn, a string
  field of the localized component replaces or adds the field of that name, and a field
  of another type leaves the field of the base as it is.
\<close>

theorem mergeCmsWithLocalization_overlay:
  "mergeCmsWithLocalization
     (JObj [(ascii ''headline'', JObj [(ascii ''text'', JStr (ascii ''A''))])])
     (JObj [(ascii ''headline'', JObj [(ascii ''text'', JStr (ascii ''B''))]),
            (ascii ''l10nId'', JStr (ascii ''x''))])
   = Inr (JObj [(ascii ''headline'', JObj [(ascii ''text'', JStr (ascii ''B''))])])
   \<and> (\<not> truthy baseData \<longrightarrow> mergeCmsWithLocalization baseData localizedData = Inr localizedData)
   \<and> (truthy baseData \<and> \<not> truthy localizedData \<longrightarrow>
        mergeCmsWithLocalization baseData localizedData = Inr baseData)
   \<and> (truthy baseData \<and> truthy localizedData
        \<and> distinct (map fst (own_entries localizedData))
        \<and> list_all (\<lambda>(c, componentData).
              overlaid c (Some componentData) \<longrightarrow>
                accepts_overlay (own_entries baseData) c componentData)
            (own_entries localizedData) \<longrightarrow>
        (\<exists>result. mergeCmsWithLocalization baseData localizedData = Inr (JObj result)
           \<and> (\<forall>c. c = ascii ''clientId'' \<or> c = ascii ''entrypoint'' \<or> c = ascii ''name''
                    \<or> c = ascii ''l10nId'' \<longrightarrow>
                  map_of result c = map_of (own_entries baseData) c)
           \<and> (\<forall>c. \<not> overlaid c (map_of (own_entries localizedData) c) \<longrightarrow>
                  map_of result c = map_of (own_entries baseData) c)
           \<and> (\<forall>c componentData fs.
                  map_of (own_entries localizedData) c = Some componentData
                  \<and> overlaid c (Some componentData)
                  \<and> component_fields (own_entries baseData) c = Some fs \<longrightarrow>
                  (\<exists>v. map_of result c = Some v \<and> typeof_object v \<and> v \<noteq> JNull
                     \<and> isArray v = holds_array (own_entries baseData) c
                     \<and> own_entries v = overlay_strings fs (own_entries componentData)))))
   \<and> (distinct (map fst localizedFields) \<and> f \<noteq> ascii ''__proto__'' \<longrightarrow>
        map_of (overlay_strings baseFields localizedFields) f =
          (case map_of localizedFields f of
             Some (JStr s) \<Rightarrow> Some (JStr s)
           | _ \<Rightarrow> map_of baseFields f))"
proof (intro conjI impI)
  assume a: "truthy baseData \<and> truthy localizedData
        \<and> distinct (map fst (own_entries localizedData))
        \<and> list_all (\<lambda>(c, componentData).
              overlaid c (Some componentData) \<longrightarrow>
                accepts_overlay (own_entries baseData) c componentData)
            (own_entries localizedData)"
  then have d: "distinct (map fst (own_entries localizedData))"
    and h: "list_all (\<lambda>(c, componentData).
              overlaid c (Some componentData) \<longrightarrow>
                accepts_overlay (own_entries baseData) c componentData)
            (own_entries localizedData)"
    by simp_all
  from merge_components_spec [OF d h]
  obtain m where m: "merge_components (own_entries baseData) (own_entries localizedData) = Inr m"
    and kept: "\<forall>c. \<not> overlaid c (map_of (own_entries localizedData) c) \<longrightarrow>
        map_of m c = map_of (own_entries baseData) c"
    and over: "\<forall>c componentData fs.
        map_of (own_entries localizedData) c = Some componentData
        \<and> overlaid c (Some componentData)
        \<and> component_fields (own_entries baseData) c = Some fs \<longrightarrow>
        (\<exists>v. map_of m c = Some v \<and> typeof_object v \<and> v \<noteq> JNull
           \<and> isArray v = holds_array (own_entries baseData) c
           \<and> own_entries v = overlay_strings fs (own_entries componentData))"
    by blast
  from a m have r: "mergeCmsWithLocalization baseData localizedData = Inr (JObj m)"
    by (simp add: mergeCmsWithLocalization_def)
  have meta: "\<forall>c. c = ascii ''clientId'' \<or> c = ascii ''entrypoint'' \<or> c = ascii ''name''
      \<or> c = ascii ''l10nId'' \<longrightarrow> map_of m c = map_of (own_entries baseData) c"
  proof (intro allI impI)
    fix c
    assume "c = ascii ''clientId'' \<or> c = ascii ''entrypoint'' \<or> c = ascii ''name''
      \<or> c = ascii ''l10nId''"
    then have "\<not> overlaid c (map_of (own_entries localizedData) c)"
      by (auto simp: overlaid_def split: option.splits)
    with kept show "map_of m c = map_of (own_entries baseData) c" by simp
  qed
  from r meta kept over
  show "\<exists>result. mergeCmsWithLocalization baseData localizedData = Inr (JObj result)
           \<and> (\<forall>c. c = ascii ''clientId'' \<or> c = ascii ''entrypoint'' \<or> c = ascii ''name''
                    \<or> c = ascii ''l10nId'' \<longrightarrow>
                  map_of result c = map_of (own_entries baseData) c)
           \<and> (\<forall>c. \<not> overlaid c (map_of (own_entries localizedData) c) \<longrightarrow>
                  map_of result c = map_of (own_entries baseData) c)
           \<and> (\<forall>c componentData fs.
                  map_of (own_entries localizedData) c = Some componentData
                  \<and> overlaid c (Some componentData)
                  \<and> component_fields (own_entries baseData) c = Some fs \<longrightarrow>
                  (\<exists>v. map_of result c = Some v \<and> typeof_object v \<and> v \<noteq> JNull
                     \<and> isArray v = holds_array (own_entries baseData) c
                     \<and> own_entries v = overlay_strings fs (own_entries componentData)))"
    by (intro exI [of _ m] conjI)
next
  assume "distinct (map fst localizedFields) \<and> f \<noteq> ascii ''__proto__''"
  then show "map_of (overlay_strings baseFields localizedFields) f =
          (case map_of localizedFields f of
             Some (JStr s) \<Rightarrow> Some (JStr s)
           | _ \<Rightarrow> map_of baseFields f)"
    using map_of_overlay_strings [of localizedFields f baseFields] by simp
qed (rule mergeCmsWithLocalization_example, simp_all add: mergeCmsWithLocalization_def)

theorem mergeCmsWithLocalization_overlay_witness:
  "truthy (JObj [(ascii ''name'', JStr (ascii ''Base'')),
                 (ascii ''headline'', JObj [(ascii ''text'', JStr (ascii ''A'')),
                                           (ascii ''sub'', JStr (ascii ''S''))]),
                 (ascii ''tags'', JArr [JStr (ascii ''a'')])])
   \<and> truthy (JObj [(ascii ''name'', JObj [(ascii ''text'', JStr (ascii ''Other''))]),
                   (ascii ''headline'', JObj [(ascii ''text'', JStr (ascii ''B'')),
                                             (ascii ''count'', JNum 5)]),
                   (ascii ''l10nId'', JStr (ascii ''x'')),
                   (ascii ''footer'', JObj [(ascii ''note'', JStr (ascii ''N''))]),
                   (ascii ''tags'', JObj [(ascii ''1'', JStr (ascii ''b''))])])
   \<and> distinct (map fst (own_entries
         (JObj [(ascii ''name'', JObj [(ascii ''text'', JStr (ascii ''Other''))]),
                (ascii ''headline'', JObj [(ascii ''text'', JStr (ascii ''B'')),
                                          (ascii ''count'', JNum 5)]),
                (ascii ''l10nId'', JStr (ascii ''x'')),
                (ascii ''footer'', JObj [(ascii ''note'', JStr (ascii ''N''))]),
                (ascii ''tags'', JObj [(ascii ''1'', JStr (ascii ''b''))])])))
   \<and> list_all (\<lambda>(c, componentData).
          overlaid c (Some componentData) \<longrightarrow>
            accepts_overlay
              (own_entries
                (JObj [(ascii ''name'', JStr (ascii ''Base'')),
                       (ascii ''headline'', JObj [(ascii ''text'', JStr (ascii ''A'')),
                                                 (ascii ''sub'', JStr (ascii ''S''))]),
                       (ascii ''tags'', JArr [JStr (ascii ''a'')])]))
              c componentData)
        (own_entries
          (JObj [(ascii ''name'', JObj [(ascii ''text'', JStr (ascii ''Other''))]),
                 (ascii ''headline'', JObj [(ascii ''text'', JStr (ascii ''B'')),
                                           (ascii ''count'', JNum 5)]),
                 (ascii ''l10nId'', JStr (ascii ''x'')),
                 (ascii ''footer'', JObj [(ascii ''note'', JStr (ascii ''N''))]),
                 (ascii ''tags'', JObj [(ascii ''1'', JStr (ascii ''b''))])]))
   \<and> mergeCmsWithLocalization
         (JObj [(ascii ''name'', JStr (ascii ''Base'')),
                (ascii ''headline'', JObj [(ascii ''text'', JStr (ascii ''A'')),
                                          (ascii ''sub'', JStr (ascii ''S''))]),
                (ascii ''tags'', JArr [JStr (ascii ''a'')])])
         (JObj [(ascii ''name'', JObj [(ascii ''text'', JStr (ascii ''Other''))]),
                (ascii ''headline'', JObj [(ascii ''text'', JStr (ascii ''B'')),
                                          (ascii ''count'', JNum 5)]),
                (ascii ''l10nId'', JStr (ascii ''x'')),
                (ascii ''footer'', JObj [(ascii ''note'', JStr (ascii ''N''))]),
                (ascii ''tags'', JObj [(ascii ''1'', JStr (ascii ''b''))])])
       = Inr (JObj [(ascii ''name'', JStr (ascii ''Base'')),
                    (ascii ''headline'', JObj [(ascii ''text'', JStr (ascii ''B'')),
                                              (ascii ''sub'', JStr (ascii ''S''))]),
                    (ascii ''tags'', JArr [JStr (ascii ''a''), JStr (ascii ''b'')]),
                    (ascii ''footer'', JObj [(ascii ''note'', JStr (ascii ''N''))])])
   \<and> map_of [(ascii ''name'', JStr (ascii ''Base'')),
             (ascii ''headline'', JObj [(ascii ''text'', JStr (ascii ''B'')),
                                       (ascii ''sub'', JStr (ascii ''S''))]),
             (ascii ''tags'', JArr [JStr (ascii ''a''), JStr (ascii ''b'')]),
             (ascii ''footer'', JObj [(ascii ''note'', JStr (ascii ''N''))])] (ascii ''name'')
       = Some (JStr (ascii ''Base''))
   \<and> (\<exists>v. map_of [(ascii ''name'', JStr (ascii ''Base'')),
                  (ascii ''headline'', JObj [(ascii ''text'', JStr (ascii ''B'')),
                                            (ascii ''sub'', JStr (ascii ''S''))]),
                  (ascii ''tags'', JArr [JStr (ascii ''a''), JStr (ascii ''b'')]),
                  (ascii ''footer'', JObj [(ascii ''note'', JStr (ascii ''N''))])]
               (ascii ''headline'') = Some v
          \<and> \<not> isArray v
          \<and> own_entries v =
              overlay_strings
                [(ascii ''text'', JStr (ascii ''A'')), (ascii ''sub'', JStr (ascii ''S''))]
                [(ascii ''text'', JStr (ascii ''B'')), (ascii ''count'', JNum 5)])
   \<and> map_of (overlay_strings
            [(ascii ''text'', JStr (ascii ''A'')), (ascii ''sub'', JStr (ascii ''S''))]
            [(ascii ''text'', JStr (ascii ''B'')), (ascii ''count'', JNum 5)]) (ascii ''count'')
       = None"
proof -
  let ?base = "JObj [(ascii ''name'', JStr (ascii ''Base'')),
                 (ascii ''headline'', JObj [(ascii ''text'', JStr (ascii ''A'')),
                                           (ascii ''sub'', JStr (ascii ''S''))]),
                 (ascii ''tags'', JArr [JStr (ascii ''a'')])]"
  let ?lh = "JObj [(ascii ''text'', JStr (ascii ''B'')), (ascii ''count'', JNum 5)]"
  let ?loc = "JObj [(ascii ''name'', JObj [(ascii ''text'', JStr (ascii ''Other''))]),
                   (ascii ''headline'', ?lh),
                   (ascii ''l10nId'', JStr (ascii ''x'')),
                   (ascii ''footer'', JObj [(ascii ''note'', JStr (ascii ''N''))]),
                   (ascii ''tags'', JObj [(ascii ''1'', JStr (ascii ''b''))])]"
  let ?res = "[(ascii ''name'', JStr (ascii ''Base'')),
               (ascii ''headline'', JObj [(ascii ''text'', JStr (ascii ''B'')),
                                         (ascii ''sub'', JStr (ascii ''S''))]),
               (ascii ''tags'', JArr [JStr (ascii ''a''), JStr (ascii ''b'')]),
               (ascii ''footer'', JObj [(ascii ''note'', JStr (ascii ''N''))])]"
  let ?fs = "[(ascii ''text'', JStr (ascii ''A'')), (ascii ''sub'', JStr (ascii ''S''))]"
  have t: "truthy ?base" "truthy ?loc" by simp_all
  have d: "distinct (map fst (own_entries ?loc))"
    by code_simp
  have h: "list_all (\<lambda>(c, componentData).
          overlaid c (Some componentData) \<longrightarrow>
            accepts_overlay (own_entries ?base) c componentData) (own_entries ?loc)"
    by code_simp
  have m: "mergeCmsWithLocalization ?base ?loc = Inr (JObj ?res)"
    by code_simp
  have o: "map_of (own_entries ?loc) (ascii ''headline'') = Some ?lh
      \<and> overlaid (ascii ''headline'') (Some ?lh)
      \<and> component_fields (own_entries ?base) (ascii ''headline'') = Some ?fs"
    by code_simp
  have n: "\<not> holds_array (own_entries ?base) (ascii ''headline'')"
    by code_simp
  have p: "distinct (map fst (own_entries ?lh)) \<and> ascii ''count'' \<noteq> ascii ''__proto__''"
    by code_simp
  have c: "(case map_of (own_entries ?lh) (ascii ''count'') of
              Some (JStr s) \<Rightarrow> Some (JStr s) | _ \<Rightarrow> map_of ?fs (ascii ''count'')) = None"
    by code_simp
  have b: "map_of (own_entries ?base) (ascii ''name'') = Some (JStr (ascii ''Base''))"
    by code_simp
  note inst = mergeCmsWithLocalization_overlay
    [of ?base ?loc "own_entries ?lh" "ascii ''count''" ?fs]
  from inst t d h obtain result where
    r: "mergeCmsWithLocalization ?base ?loc = Inr (JObj result)"
    and meta: "\<forall>c. c = ascii ''clientId'' \<or> c = ascii ''entrypoint'' \<or> c = ascii ''name''
        \<or> c = ascii ''l10nId'' \<longrightarrow> map_of result c = map_of (own_entries ?base) c"
    and over: "\<forall>c componentData fs.
        map_of (own_entries ?loc) c = Some componentData
        \<and> overlaid c (Some componentData)
        \<and> component_fields (own_entries ?base) c = Some fs \<longrightarrow>
        (\<exists>v. map_of result c = Some v \<and> typeof_object v \<and> v \<noteq> JNull
           \<and> isArray v = holds_array (own_entries ?base) c
           \<and> own_entries v = overlay_strings fs (own_entries componentData))"
    by blast
  from r m have e: "result = ?res" by simp
  from meta b have n1: "map_of result (ascii ''name'') = Some (JStr (ascii ''Base''))"
    by simp
  from over o have "\<exists>v. map_of result (ascii ''headline'') = Some v \<and> typeof_object v
      \<and> v \<noteq> JNull \<and> isArray v = holds_array (own_entries ?base) (ascii ''headline'')
      \<and> own_entries v = overlay_strings ?fs (own_entries ?lh)"
    by blast
  with n have k: "\<exists>v. map_of result (ascii ''headline'') = Some v \<and> \<not> isArray v
      \<and> own_entries v = overlay_strings ?fs (own_entries ?lh)"
    by auto
  from inst p have "map_of (overlay_strings ?fs (own_entries ?lh)) (ascii ''count'') =
      (case map_of (own_entries ?lh) (ascii ''count'') of
              Some (JStr s) \<Rightarrow> Some (JStr s) | _ \<Rightarrow> map_of ?fs (ascii ''count''))"
    by blast
  with c have q: "map_of (overlay_strings ?fs (own_entries ?lh)) (ascii ''count'') = None"
    by simp
  from t d h m n1 k q show ?thesis unfolding e by simp
qed

text \<open>
  The claim as it is written fails where the overlay has nothing to write to.  A base
  that holds a string under the name of a component: \<^verbatim>\<open>TypeError\<close>.  A base that holds an
  array there, and a localized field \<^verbatim>\<open>length\<close>: \<^verbatim>\<open>RangeError\<close>.  A component named as a
  member of \<^verbatim>\<open>Object.prototype\<close>: the field is written to the built-in function and the
  result has none of it, or \<^verbatim>\<open>TypeError\<close> for a field that the function protects.
\<close>

theorem mergeCmsWithLocalization_throws:
  "mergeCmsWithLocalization
     (JObj [(ascii ''hero'', JStr (ascii ''str''))])
     (JObj [(ascii ''hero'', JObj [(ascii ''title'', JStr (ascii ''T''))])])
   = Inl TypeError
   \<and> mergeCmsWithLocalization
       (JObj [(ascii ''tags'', JArr [JStr (ascii ''a'')])])
       (JObj [(ascii ''tags'', JObj [(ascii ''length'', JStr (ascii ''long''))])])
     = Inl RangeError
   \<and> mergeCmsWithLocalization
       (JObj [(ascii ''hero'', JObj [(ascii ''title'', JStr (ascii ''A''))])])
       (JObj [(ascii ''toString'', JObj [(ascii ''title'', JStr (ascii ''T''))])])
     = Inr (JObj [(ascii ''hero'', JObj [(ascii ''title'', JStr (ascii ''A''))])])
   \<and> mergeCmsWithLocalization
       (JObj [(ascii ''hero'', JObj [(ascii ''title'', JStr (ascii ''A''))])])
       (JObj [(ascii ''toString'', JObj [(ascii ''name'', JStr (ascii ''T''))])])
     = Inl TypeError"
  by code_simp

subsection \<open>The pull request of the localization file\<close>

lemma map_of_put_entry: "map_of (put_entry k v ps) c = (if c = k then Some v else map_of ps c)"
  by (induction ps) auto

lemma put_entry_same: "map_of ps k = Some v \<Longrightarrow> put_entry k v ps = ps"
  by (induction ps) (auto split: if_splits)

lemma find_first: "list_ex P xs \<Longrightarrow> find P xs = Some (hd (filter P xs))"
  by (induction xs) auto

lemma hd_filter_member: "list_ex P xs \<Longrightarrow> hd (filter P xs) \<in> set xs \<and> P (hd (filter P xs))"
  by (induction xs) auto

lemma find_by_number:
  "distinct (map pr_number prs) \<Longrightarrow> pr \<in> set prs \<Longrightarrow>
   find (\<lambda>p. pr_number p = pr_number pr) prs = Some pr"
  by (induction prs) (auto simp: rev_image_eqI)

lemma pulls_list_subset: "set (pulls_list repo n) \<subseteq> set (repo_pulls repo)"
  unfolding pulls_list_def by (meson filter_is_subset set_take_subset subset_trans)

text \<open>
  The update of a pull request of the repository whose head branch exists: the file is
  written on the head branch, and nothing else changes.
\<close>

lemma updateExistingPR_writes:
  assumes d: "distinct (map pr_number (repo_pulls repo))" and m: "pr \<in> set (repo_pulls repo)"
    and b: "map_of (repo_branches repo) (pr_head_ref pr) = Some files"
  shows "updateExistingPR repo (pr_number pr) ftlContent =
     Inr (repo \<lparr> repo_branches :=
            put_entry (pr_head_ref pr) (put_entry cms_file_path ftlContent files)
              (repo_branches repo) \<rparr>)"
proof -
  from find_by_number [OF d m] have g: "pulls_get repo (pr_number pr) = Inr pr"
    by (simp add: pulls_get_def)
  show ?thesis
  proof (cases "map_of files cms_file_path")
    case None
    with b g show ?thesis
      by (simp add: updateExistingPR_def repos_getContent_def
          repos_createOrUpdateFileContents_def)
  next
    case (Some content)
    with b g show ?thesis
      by (simp add: updateExistingPR_def repos_getContent_def
          repos_createOrUpdateFileContents_def)
  qed
qed

lemma findExistingPR_listed:
  assumes "list_ex cms_pull_request (pulls_list repo 100)"
  shows "findExistingPR repo = Some (hd (filter cms_pull_request (pulls_list repo 100)))"
proof -
  have e: "(\<lambda>pr. (includes_str (pr_title pr) (ascii ''cms.ftl'')
                 \<or> includes_str (pr_title pr) (ascii ''CMS localization''))
                \<and> pr_state pr = PrOpen) = cms_pull_request"
    by (auto simp: cms_pull_request_def fun_eq_iff)
  from find_first [OF assms] show ?thesis unfolding findExistingPR_def e .
qed

subsection \<open>C10: no second pull request\<close>



text \<open>The repository with a hundred newer pull requests.\<close>

lemma typo_pr_not_cms: "\<not> cms_pull_request (typo_pr n)"
proof -
  have "\<not> includes_str (ascii ''Fix a typo'') (ascii ''cms.ftl'')"
    and "\<not> includes_str (ascii ''Fix a typo'') (ascii ''CMS localization'')"
    by code_simp+
  then show ?thesis by (simp add: cms_pull_request_def typo_pr_def)
qed

lemma cms_pr_is_cms: "cms_pull_request cms_pr"
  by code_simp

lemma second_cms_pr_is_cms: "cms_pull_request second_cms_pr"
  by code_simp

lemma crowded_pulls: "repo_pulls crowded_repository = map typo_pr (rev [2..<102]) @ [cms_pr]"
  by (simp add: crowded_repository_def)

lemma filter_typo_prs: "filter cms_pull_request (map typo_pr ns) = []"
  by (induction ns) (simp_all add: typo_pr_not_cms)

lemma open_typo_prs: "filter (\<lambda>pr. pr_state pr = PrOpen) (map typo_pr ns) = map typo_pr ns"
  by (induction ns) (simp_all add: typo_pr_def)

lemma find_typo_prs: "find cms_pull_request (map typo_pr ns) = None"
  by (induction ns) (simp_all add: typo_pr_not_cms)

lemma listing_typo_prs:
  assumes "length ns = n" "pr_state pr = PrOpen"
  shows "take n (filter (\<lambda>pr. pr_state pr = PrOpen) (map typo_pr ns @ [pr])) = map typo_pr ns"
  using assms by (simp add: open_typo_prs)

lemma crowded_listing:
  "\<exists>ns. pulls_list crowded_repository 100 = map typo_pr ns"
proof -
  have l: "length (rev [2..<102]) = (100::nat)" by simp
  have o: "pr_state cms_pr = PrOpen" by (simp add: cms_pr_def)
  have "pulls_list crowded_repository 100 = map typo_pr (rev [2..<102])"
    unfolding pulls_list_def crowded_pulls by (rule listing_typo_prs [OF l o])
  then show ?thesis ..
qed

lemma crowded_not_found: "findExistingPR crowded_repository = None"
proof -
  have e: "(\<lambda>pr. (includes_str (pr_title pr) (ascii ''cms.ftl'')
                 \<or> includes_str (pr_title pr) (ascii ''CMS localization''))
                \<and> pr_state pr = PrOpen) = cms_pull_request"
    by (auto simp: cms_pull_request_def fun_eq_iff)
  from crowded_listing obtain ns where "pulls_list crowded_repository 100 = map typo_pr ns" ..
  then show ?thesis unfolding findExistingPR_def e by (simp only: find_typo_prs)
qed

lemma createGitHubPR_crowded:
  "createGitHubPR
     \<lparr> repo_pulls = prs,
       repo_branches = [(ascii ''main'', []),
                        (ascii ''cms-localization-5'', [(cms_file_path, ascii ''old'')]),
                        (ascii ''patch'', [])],
       repo_next_number = 102 \<rparr>
     (ascii ''main'') 7 (ascii ''new'')
   = Inr \<lparr> repo_pulls = second_cms_pr # prs,
           repo_branches = [(ascii ''main'', []),
                            (ascii ''cms-localization-5'', [(cms_file_path, ascii ''old'')]),
                            (ascii ''patch'', []),
                            (ascii ''cms-localization-7'', [(cms_file_path, ascii ''new'')])],
           repo_next_number = 103 \<rparr>"
  by code_simp

lemma crowded_branches:
  "repo_branches crowded_repository =
     [(ascii ''main'', []),
      (ascii ''cms-localization-5'', [(cms_file_path, ascii ''old'')]),
      (ascii ''patch'', [])]"
  by (simp add: crowded_repository_def)

lemma crowded_next_number: "repo_next_number crowded_repository = 102"
  by (simp add: crowded_repository_def)


end
